theory Spec2Isabelle
  imports Complex_Main
begin

section \<open>Values of the host language\<close>

text \<open>
  The cache stores JavaScript values. A number is a double: the model keeps the three
  non-finite numbers apart and takes a finite number as the rational it denotes. A date
  is its time value, epoch milliseconds, or \<open>None\<close> for an invalid date. An object is
  the list of its own enumerable members in enumeration order. The last five
  constructors are the kinds \<open>Ext.typeOf\<close> reports that the cache refuses.

  Names of the source that start with an underscore lose it here
  (\<open>_serialize_value\<close> is \<open>serialize_value\<close>).
\<close>

datatype number = Finite rat | NaN | PosInfinity | NegInfinity

datatype jsval =
    VUndefined
  | VNull
  | VString string
  | VNumber number
  | VBoolean bool
  | VDate "int option"
  | VArray "jsval list"
  | VObject "(string \<times> jsval) list"
  | VFunction
  | VRegexp
  | VElement
  | VTextnode
  | VWhitespace

text \<open>
  What \<open>Ext.JSON.decode\<close> yields and \<open>Ext.JSON.encode\<close> accepts: the serialized
  form of a value is a tree of this shape.
\<close>

datatype json =
    JNull
  | JBool bool
  | JNum rat
  | JStr string
  | JArr "json list"
  | JObj "(string \<times> json) list"

text \<open>
  Every \<open>Ext.Error.raise\<close> of the source is a constructor, as is the \<open>TypeError\<close>
  the runtime throws for a property read on \<open>null\<close> or \<open>undefined\<close> and the error
  of \<open>Ext.JSON.decode\<close> on a string that is not JSON. \<open>OutsideModel\<close> is not an
  error of the program: it marks an input on which the runtime's implicit
  conversions are not modelled (see \<open>to_number\<close>, \<open>to_string\<close>).
\<close>

datatype error =
    InvalidKey
  | InvalidValue
  | UnsupportedType string
  | InvalidExpiration
  | InvalidValueType string
  | InvalidSerialized
  | InvalidSerializedType
  | InvalidSerializedBoolean
  | TypeError
  | JSONDecodeError
  | OutsideModel

text \<open>\<open>_get_value_type\<close> is \<open>Ext.typeOf\<close>.\<close>

fun get_value_type :: "jsval \<Rightarrow> string" where
  "get_value_type VUndefined = ''undefined''"
| "get_value_type VNull = ''null''"
| "get_value_type (VString s) = ''string''"
| "get_value_type (VNumber n) = ''number''"
| "get_value_type (VBoolean b) = ''boolean''"
| "get_value_type (VDate d) = ''date''"
| "get_value_type (VArray xs) = ''array''"
| "get_value_type (VObject ms) = ''object''"
| "get_value_type VFunction = ''function''"
| "get_value_type VRegexp = ''regexp''"
| "get_value_type VElement = ''element''"
| "get_value_type VTextnode = ''textnode''"
| "get_value_type VWhitespace = ''whitespace''"

text \<open>The types that \<open>set\<close> refuses: functions, patterns and the nodes of a document.\<close>

definition unsupported_types :: "string list" where
  "unsupported_types = [''function'', ''regexp'', ''element'', ''textnode'', ''whitespace'']"

subsection \<open>Conversions of the runtime\<close>

text \<open>Decimal digits of a natural number, most significant first.\<close>

definition digit_char :: "nat \<Rightarrow> char" where
  "digit_char d = char_of (48 + d)"

function show_nat :: "nat \<Rightarrow> string" where
  "show_nat n = (if n < 10 then [digit_char n] else show_nat (n div 10) @ [digit_char (n mod 10)])"
  by pat_completeness auto
termination
  by (relation "measure id") auto

declare show_nat.simps [simp del]

definition show_int :: "int \<Rightarrow> string" where
  "show_int i = (if i < 0 then CHR ''-'' # show_nat (nat (- i)) else show_nat (nat i))"

definition digit_val :: "char \<Rightarrow> nat option" where
  "digit_val c =
     (let k = of_char c :: nat in if 48 \<le> k \<and> k \<le> 57 then Some (k - 48) else None)"

fun read_digits :: "nat \<Rightarrow> string \<Rightarrow> nat option" where
  "read_digits acc [] = Some acc"
| "read_digits acc (c # cs) =
     (case digit_val c of None \<Rightarrow> None | Some d \<Rightarrow> read_digits (10 * acc + d) cs)"

definition read_nat :: "string \<Rightarrow> nat option" where
  "read_nat s = (if s = [] then None else read_digits 0 s)"

text \<open>
  The largest time value of a date, and the bound below which every integer is a double.
\<close>

definition max_time :: int where
  "max_time = 8640000000000000"

definition max_safe :: int where
  "max_safe = 9007199254740992"

text \<open>
  \<open>ToNumber\<close> on a string, for the strings the cache writes and reads: the empty
  string, the names of the infinities, a signed run of decimal digits that denotes an
  exactly representable integer, and a string that cannot be a numeric literal because
  it has a letter but neither a digit nor an \<open>I\<close> (such as \<open>NaN\<close>, \<open>undefined\<close>,
  \<open>null\<close>), which converts to NaN. Other strings (fractions, exponents, white
  space, radix prefixes) are outside the model: \<open>None\<close>.
\<close>

definition is_letter :: "char \<Rightarrow> bool" where
  "is_letter c =
     (let k = of_char c :: nat in (65 \<le> k \<and> k \<le> 90) \<or> (97 \<le> k \<and> k \<le> 122))"

definition not_numeric :: "string \<Rightarrow> bool" where
  "not_numeric s =
     (list_all (\<lambda>c. digit_val c = None \<and> c \<noteq> CHR ''I'') s \<and> list_ex is_letter s)"

definition string_to_number :: "string \<Rightarrow> number option" where
  "string_to_number s =
     (if s = [] then Some (Finite 0)
      else if s = ''Infinity'' \<or> s = ''+Infinity'' then Some PosInfinity
      else if s = ''-Infinity'' then Some NegInfinity
      else if not_numeric s then Some NaN
      else (case s of
              c # cs \<Rightarrow>
                (if c = CHR ''-'' then
                   (case read_nat cs of
                      Some n \<Rightarrow> if int n \<le> max_safe then Some (Finite (- of_nat n)) else None
                    | None \<Rightarrow> None)
                 else
                   (case read_nat (if c = CHR ''+'' then cs else s) of
                      Some n \<Rightarrow> if int n \<le> max_safe then Some (Finite (of_nat n)) else None
                    | None \<Rightarrow> None))
            | [] \<Rightarrow> None))"

text \<open>
  \<open>ToNumber\<close> on a decoded payload; \<open>None\<close> as argument is \<open>undefined\<close> (the member
  is missing). Arrays and objects convert through their string form, which is outside
  the model.
\<close>

fun to_number :: "json option \<Rightarrow> number option" where
  "to_number None = Some NaN"
| "to_number (Some JNull) = Some (Finite 0)"
| "to_number (Some (JBool b)) = Some (Finite (if b then 1 else 0))"
| "to_number (Some (JNum r)) = Some (Finite r)"
| "to_number (Some (JStr s)) = string_to_number s"
| "to_number (Some (JArr xs)) = None"
| "to_number (Some (JObj ms)) = None"

text \<open>
  \<open>ToString\<close> of a number, where the string is decimal digits: an integer below
  \<open>10^21\<close> in magnitude, and the three non-finite numbers.
\<close>

fun number_to_string :: "number \<Rightarrow> string option" where
  "number_to_string NaN = Some ''NaN''"
| "number_to_string PosInfinity = Some ''Infinity''"
| "number_to_string NegInfinity = Some ''-Infinity''"
| "number_to_string (Finite r) =
     (if r = of_int \<lfloor>r\<rfloor> \<and> \<bar>r\<bar> < 10 ^ 21 then Some (show_int \<lfloor>r\<rfloor>) else None)"

fun to_string :: "json option \<Rightarrow> string option" where
  "to_string None = Some ''undefined''"
| "to_string (Some JNull) = Some ''null''"
| "to_string (Some (JBool b)) = Some (if b then ''true'' else ''false'')"
| "to_string (Some (JNum r)) = number_to_string (Finite r)"
| "to_string (Some (JStr s)) = Some s"
| "to_string (Some (JArr xs)) = None"
| "to_string (Some (JObj ms)) = None"

text \<open>
  The time value of a date as a number (\<open>value - 0\<close>), and \<open>new Date(n)\<close> with its
  \<open>TimeClip\<close>: no date for a non-finite or too large number, the fraction dropped.
\<close>

fun time_value :: "int option \<Rightarrow> number" where
  "time_value None = NaN"
| "time_value (Some t) = Finite (of_int t)"

definition truncate_rat :: "rat \<Rightarrow> int" where
  "truncate_rat r = (if 0 \<le> r then \<lfloor>r\<rfloor> else \<lceil>r\<rceil>)"

fun new_Date :: "number \<Rightarrow> int option" where
  "new_Date (Finite r) = (if \<bar>r\<bar> \<le> of_int max_time then Some (truncate_rat r) else None)"
| "new_Date NaN = None"
| "new_Date PosInfinity = None"
| "new_Date NegInfinity = None"

section \<open>Serialization\<close>

text \<open>
  A serialized node is the object \<open>{type: t, value: p}\<close>; the nodes for \<open>undefined\<close>
  and \<open>null\<close> have no \<open>value\<close> member.

  Each \<open>_serialize_*\<close> function of the source is applied to a value of its own kind
  only (\<open>_serialize_value\<close> is always called with the type of the value it is given).
  On a value of another kind the model answers \<open>OutsideModel\<close>.
\<close>

definition node :: "string \<Rightarrow> json \<Rightarrow> json" where
  "node t p = JObj [(''type'', JStr t), (''value'', p)]"

definition serialize_undefined :: "jsval \<Rightarrow> json" where
  "serialize_undefined v = JObj [(''type'', JStr ''undefined'')]"

definition serialize_null :: "jsval \<Rightarrow> json" where
  "serialize_null v = JObj [(''type'', JStr ''null'')]"

fun serialize_string :: "jsval \<Rightarrow> error + json" where
  "serialize_string (VString s) = Inr (node ''string'' (JStr s))"
| "serialize_string v = Inl OutsideModel"

text \<open>
  A number that is none of \<open>-Infinity\<close>, \<open>Infinity\<close>, NaN is stored as it is;
  the other three as the string \<open>value + ''\<close>.
\<close>

fun serialize_number :: "jsval \<Rightarrow> error + json" where
  "serialize_number (VNumber (Finite r)) = Inr (node ''number'' (JNum r))"
| "serialize_number (VNumber n) =
     (case number_to_string n of
        Some s \<Rightarrow> Inr (node ''number'' (JStr s))
      | None \<Rightarrow> Inl OutsideModel)"
| "serialize_number v = Inl OutsideModel"

fun serialize_boolean :: "jsval \<Rightarrow> error + json" where
  "serialize_boolean (VBoolean b) = Inr (node ''boolean'' (JStr (if b then ''true'' else ''false'')))"
| "serialize_boolean v = Inl OutsideModel"

text \<open>
  A date has no time value or one of at most \<open>max_time\<close> in magnitude; \<open>VDate (Some t)\<close>
  with a larger \<open>t\<close> stands for no date of the host language.
\<close>

fun valid_time :: "int option \<Rightarrow> bool" where
  "valid_time None = True"
| "valid_time (Some t) = (\<bar>t\<bar> \<le> max_time)"

fun serialize_date :: "jsval \<Rightarrow> error + json" where
  "serialize_date (VDate d) =
     (if \<not> valid_time d then Inl OutsideModel
      else (case number_to_string (time_value d) of
              Some s \<Rightarrow> Inr (node ''date'' (JStr s))
            | None \<Rightarrow> Inl OutsideModel))"
| "serialize_date v = Inl OutsideModel"

text \<open>
  The two loops push one serialized item after the other; a raise inside an item leaves
  the loop. \<open>serialize_array_loop\<close> and \<open>serialize_object_loop\<close> are the bodies of the
  \<open>for\<close> statements of \<open>_serialize_array\<close> and \<open>_serialize_object\<close>.

  An object is given by its own members, so the test \<open>object.hasOwnProperty(i)\<close> holds
  of each member visited, as long as \<open>hasOwnProperty\<close> is the method every object
  inherits. When the object has an own member of that name, the test calls that member:
  a \<open>TypeError\<close> in the first round of the loop when the member is data (a value of
  one of the eight kinds the cache stores), a call into the caller's code or into the
  engine when it is a function, a pattern or a node (outside the model). What an
  assignment to a member named \<open>__proto__\<close> does depends on the engine; such an object
  is outside the model.
\<close>

fun serialize_value :: "string \<Rightarrow> jsval \<Rightarrow> error + json"
  and serialize_array :: "jsval \<Rightarrow> error + json"
  and serialize_array_loop :: "jsval list \<Rightarrow> error + json list"
  and serialize_object :: "jsval \<Rightarrow> error + json"
  and serialize_object_loop :: "(string \<times> jsval) list \<Rightarrow> error + (string \<times> json) list"
where
  "serialize_value ty v =
     (if ty = ''undefined'' then Inr (serialize_undefined v)
      else if ty = ''null'' then Inr (serialize_null v)
      else if ty = ''string'' then serialize_string v
      else if ty = ''number'' then serialize_number v
      else if ty = ''boolean'' then serialize_boolean v
      else if ty = ''date'' then serialize_date v
      else if ty = ''object'' then serialize_object v
      else if ty = ''array'' then serialize_array v
      else Inl (InvalidValueType ty))"
| "serialize_array (VArray xs) =
     (case serialize_array_loop xs of
        Inl e \<Rightarrow> Inl e
      | Inr result \<Rightarrow> Inr (node ''array'' (JArr result)))"
| "serialize_array v = Inl OutsideModel"
| "serialize_array_loop [] = Inr []"
| "serialize_array_loop (item # rest) =
     (case serialize_value (get_value_type item) item of
        Inl e \<Rightarrow> Inl e
      | Inr j \<Rightarrow>
          (case serialize_array_loop rest of
             Inl e \<Rightarrow> Inl e
           | Inr js \<Rightarrow> Inr (j # js)))"
| "serialize_object (VObject ms) =
     (case map_of ms ''hasOwnProperty'' of
        Some x \<Rightarrow>
          if get_value_type x \<in> set unsupported_types then Inl OutsideModel else Inl TypeError
      | None \<Rightarrow>
          if ''__proto__'' \<in> fst ` set ms then Inl OutsideModel
          else (case serialize_object_loop ms of
                  Inl e \<Rightarrow> Inl e
                | Inr result \<Rightarrow> Inr (node ''object'' (JObj result))))"
| "serialize_object v = Inl OutsideModel"
| "serialize_object_loop [] = Inr []"
| "serialize_object_loop ((i, item) # rest) =
     (case serialize_value (get_value_type item) item of
        Inl e \<Rightarrow> Inl e
      | Inr j \<Rightarrow>
          (case serialize_object_loop rest of
             Inl e \<Rightarrow> Inl e
           | Inr js \<Rightarrow> Inr ((i, j) # js)))"

section \<open>Deserialization\<close>

text \<open>
  A property read \<open>item[name]\<close> on a decoded document, for the names \<open>type\<close> and
  \<open>value\<close>: a \<open>TypeError\<close> on \<open>null\<close>, the member of an object when it has one,
  \<open>undefined\<close> (\<open>None\<close>) otherwise.
\<close>

fun get_property :: "json \<Rightarrow> string \<Rightarrow> error + json option" where
  "get_property JNull name = Inl TypeError"
| "get_property (JObj ms) name = Inr (map_of ms name)"
| "get_property j name = Inr None"

text \<open>
  The comparison \<open>value.type != t\<close> of \<open>_check_serialized\<close> is the loose one. On a
  string it is inequality of strings; \<open>null\<close> is loosely equal to no string; a boolean
  or a number is compared with the number the string converts to; an object with its
  string form \<open>[object Object]\<close>; for an array the comparison goes through the array's
  string form and is outside the model.
\<close>

fun loose_neq :: "json \<Rightarrow> string \<Rightarrow> bool option" where
  "loose_neq (JStr s) t = Some (s \<noteq> t)"
| "loose_neq JNull t = Some True"
| "loose_neq (JBool b) t =
     (case string_to_number t of
        Some n \<Rightarrow> Some (n \<noteq> Finite (if b then 1 else 0))
      | None \<Rightarrow> None)"
| "loose_neq (JNum r) t =
     (case string_to_number t of
        Some n \<Rightarrow> Some (n \<noteq> Finite r)
      | None \<Rightarrow> None)"
| "loose_neq (JObj ms) t = Some (t \<noteq> ''[object Object]'')"
| "loose_neq (JArr xs) t = None"

text \<open>
  \<open>_check_serialized\<close> raises or returns true, so the model returns no value on
  success. \<open>Ext.isObject\<close> holds of plain objects only. A decoded object with a
  member named \<open>hasOwnProperty\<close> has data where the method is looked for, and the
  call \<open>value.hasOwnProperty('type')\<close> is a \<open>TypeError\<close>.
\<close>

fun check_serialized :: "json \<Rightarrow> error + unit" where
  "check_serialized (JObj ms) =
     (if map_of ms ''hasOwnProperty'' \<noteq> None then Inl TypeError
      else (case map_of ms ''type'' of
        None \<Rightarrow> Inl InvalidSerialized
      | Some ty \<Rightarrow>
          (case (loose_neq ty ''undefined'', loose_neq ty ''null'') of
             (Some a, Some b) \<Rightarrow>
               (if (a \<and> b) \<and> map_of ms ''value'' = None then Inl InvalidSerialized
                else Inr ())
           | _ \<Rightarrow> Inl OutsideModel)))"
| "check_serialized j = Inl InvalidSerialized"

definition deserialize_string :: "json option \<Rightarrow> error + jsval" where
  "deserialize_string v =
     (case to_string v of Some s \<Rightarrow> Inr (VString s) | None \<Rightarrow> Inl OutsideModel)"

definition deserialize_number :: "json option \<Rightarrow> error + jsval" where
  "deserialize_number v =
     (if v = Some (JStr ''-Infinity'') then Inr (VNumber NegInfinity)
      else if v = Some (JStr ''Infinity'') then Inr (VNumber PosInfinity)
      else if v = Some (JStr ''NaN'') then Inr (VNumber NaN)
      else (case to_number v of Some n \<Rightarrow> Inr (VNumber n) | None \<Rightarrow> Inl OutsideModel))"

definition deserialize_boolean :: "json option \<Rightarrow> error + jsval" where
  "deserialize_boolean v =
     (if v = Some (JStr ''true'') then Inr (VBoolean True)
      else if v = Some (JStr ''false'') then Inr (VBoolean False)
      else Inl InvalidSerializedBoolean)"

definition deserialize_date :: "json option \<Rightarrow> error + jsval" where
  "deserialize_date v =
     (case to_number v of Some n \<Rightarrow> Inr (VDate (new_Date n)) | None \<Rightarrow> Inl OutsideModel)"

text \<open>
  The dispatch table built by the constructor. The table is a plain object, so a tag
  that names a member every object inherits (\<open>object_members\<close>, the functions of the
  standard, and with them the names some engines add) finds that member instead of
  nothing: such tags are outside the model. The tag is used as a property name, that
  is, as its string form: a missing tag reads the entry \<open>undefined\<close> and the tag
  \<open>null\<close> the entry \<open>null\<close>; the string form of a number or of an object names no
  entry.
\<close>

datatype reader =
  ReadUndefined | ReadNull | ReadString | ReadNumber | ReadBoolean | ReadDate | ReadArray | ReadObject

definition functionTable :: "(string \<times> reader) list" where
  "functionTable =
     [(''undefined'', ReadUndefined), (''null'', ReadNull), (''string'', ReadString),
      (''number'', ReadNumber), (''boolean'', ReadBoolean), (''date'', ReadDate),
      (''array'', ReadArray), (''object'', ReadObject)]"

definition object_members :: "string list" where
  "object_members =
     [''constructor'', ''toString'', ''toLocaleString'', ''valueOf'', ''hasOwnProperty'',
      ''isPrototypeOf'', ''propertyIsEnumerable'']"

definition inherited_members :: "string list" where
  "inherited_members =
     object_members @
     [''__proto__'', ''__defineGetter__'', ''__defineSetter__'', ''__lookupGetter__'',
      ''__lookupSetter__'']"

fun table_entry :: "json option \<Rightarrow> error + reader option" where
  "table_entry (Some (JArr xs)) = Inl OutsideModel"
| "table_entry (Some (JNum r)) = Inr None"
| "table_entry (Some (JObj ms)) = Inr None"
| "table_entry ty =
     (case to_string ty of
        None \<Rightarrow> Inl OutsideModel
      | Some name \<Rightarrow>
          (if name \<in> set inherited_members then Inl OutsideModel
           else Inr (map_of functionTable name)))"

text \<open>
  A member of an object is smaller than the object: the recursion of the deserializer
  goes from a node to the payload found under its \<open>value\<close> member.
\<close>

definition payload_size :: "json option \<Rightarrow> nat" where
  "payload_size v = (case v of None \<Rightarrow> 0 | Some j \<Rightarrow> size j)"

lemma map_of_size:
  "map_of ms name = Some v \<Longrightarrow> size v < size_list (size_prod (\<lambda>_. 0) size) ms"
  by (induction ms) (auto split: if_splits)

lemma get_property_size:
  "get_property item name = Inr ov \<Longrightarrow> payload_size ov \<le> size item"
  by (cases item; cases ov) (auto simp: payload_size_def dest: map_of_size)

text \<open>
  \<open>_deserialize_value\<close> and the readers for arrays and objects. The loops read
  \<open>item['type']\<close> and \<open>item['value']\<close> first, check the item next, and recurse last,
  as the source does. A payload that is no array (no object) is handled as the runtime
  handles it: \<open>value.length\<close> is a \<open>TypeError\<close> on \<open>undefined\<close> and \<open>null\<close>, is
  \<open>undefined\<close> on a number, a boolean and an object without such a member (no
  iteration), and is the number of characters of a string, whose characters fail the
  check; \<open>for ... in\<close> visits nothing on \<open>undefined\<close>, \<open>null\<close>, numbers, booleans and
  the empty string or array, and the characters of a string.
\<close>

function (sequential) deserialize_value :: "json option \<Rightarrow> json option \<Rightarrow> error + jsval"
  and deserialize_array :: "json option \<Rightarrow> error + jsval"
  and deserialize_array_loop :: "json list \<Rightarrow> error + jsval list"
  and deserialize_object :: "json option \<Rightarrow> error + jsval"
  and deserialize_object_loop :: "(string \<times> json) list \<Rightarrow> error + (string \<times> jsval) list"
where
  "deserialize_value ty v =
     (case table_entry ty of
        Inl e \<Rightarrow> Inl e
      | Inr None \<Rightarrow> Inl InvalidSerializedType
      | Inr (Some fn) \<Rightarrow>
          (case fn of
             ReadUndefined \<Rightarrow> Inr VUndefined
           | ReadNull \<Rightarrow> Inr VNull
           | ReadString \<Rightarrow> deserialize_string v
           | ReadNumber \<Rightarrow> deserialize_number v
           | ReadBoolean \<Rightarrow> deserialize_boolean v
           | ReadDate \<Rightarrow> deserialize_date v
           | ReadArray \<Rightarrow> deserialize_array v
           | ReadObject \<Rightarrow> deserialize_object v))"
| "deserialize_array None = Inl TypeError"
| "deserialize_array (Some JNull) = Inl TypeError"
| "deserialize_array (Some (JArr items)) =
     (case deserialize_array_loop items of
        Inl e \<Rightarrow> Inl e
      | Inr result \<Rightarrow> Inr (VArray result))"
| "deserialize_array (Some (JStr s)) =
     (if s = [] then Inr (VArray []) else Inl InvalidSerialized)"
| "deserialize_array (Some (JNum r)) = Inr (VArray [])"
| "deserialize_array (Some (JBool b)) = Inr (VArray [])"
| "deserialize_array (Some (JObj ms)) =
     (case map_of ms ''length'' of
        None \<Rightarrow> Inr (VArray [])
      | Some l \<Rightarrow> Inl OutsideModel)"
| "deserialize_array_loop [] = Inr []"
| "deserialize_array_loop (item # rest) =
     (case get_property item ''type'' of
        Inl e \<Rightarrow> Inl e
      | Inr item_type \<Rightarrow>
     (case get_property item ''value'' of
        Inl e \<Rightarrow> Inl e
      | Inr item_value \<Rightarrow>
     (case check_serialized item of
        Inl e \<Rightarrow> Inl e
      | Inr ok \<Rightarrow>
     (case deserialize_value item_type item_value of
        Inl e \<Rightarrow> Inl e
      | Inr x \<Rightarrow>
     (case deserialize_array_loop rest of
        Inl e \<Rightarrow> Inl e
      | Inr xs \<Rightarrow> Inr (x # xs))))))"
| "deserialize_object (Some (JObj ms)) =
     (if ''__proto__'' \<in> fst ` set ms then Inl OutsideModel
      else (case deserialize_object_loop ms of
              Inl e \<Rightarrow> Inl e
            | Inr result \<Rightarrow> Inr (VObject result)))"
| "deserialize_object (Some (JStr s)) =
     (if s = [] then Inr (VObject []) else Inl InvalidSerialized)"
| "deserialize_object (Some (JArr items)) =
     (if items = [] then Inr (VObject []) else Inl OutsideModel)"
| "deserialize_object v = Inr (VObject [])"
| "deserialize_object_loop [] = Inr []"
| "deserialize_object_loop ((i, item) # rest) =
     (case get_property item ''type'' of
        Inl e \<Rightarrow> Inl e
      | Inr item_type \<Rightarrow>
     (case get_property item ''value'' of
        Inl e \<Rightarrow> Inl e
      | Inr item_value \<Rightarrow>
     (case check_serialized item of
        Inl e \<Rightarrow> Inl e
      | Inr ok \<Rightarrow>
     (case deserialize_value item_type item_value of
        Inl e \<Rightarrow> Inl e
      | Inr x \<Rightarrow>
     (case deserialize_object_loop rest of
        Inl e \<Rightarrow> Inl e
      | Inr xs \<Rightarrow> Inr ((i, x) # xs))))))"

  by pat_completeness auto
termination
proof (relation "measure (\<lambda>x. case x of
          Inl (Inl (ty, v)) \<Rightarrow> 3 * payload_size v + 2
        | Inl (Inr v) \<Rightarrow> 3 * payload_size v + 1
        | Inr (Inl items) \<Rightarrow> 3 * size_list size items
        | Inr (Inr (Inl v)) \<Rightarrow> 3 * payload_size v + 1
        | Inr (Inr (Inr ms)) \<Rightarrow> 3 * size_list (size_prod (\<lambda>_. 0) size) ms)",
       goal_cases)
  case (5 item rest item_type item_value)
  then show ?case
    using get_property_size [of item "''value''" item_value] by simp
next
  case (8 i item rest item_type item_value)
  then show ?case
    using get_property_size [of item "''value''" item_value] by simp
qed (simp_all add: payload_size_def)

section \<open>Storage\<close>

subsection \<open>The in-memory storage\<close>

text \<open>
  The default storage object: \<open>items\<close>, \<open>keys\<close> and \<open>length\<close>. It holds values of
  the host language as they are. Presence of a key is tested by the truth value of
  \<open>items[key]\<close>. \<open>items\<close> is a plain object: \<open>items[key]\<close> is the own member of
  that name, else the function every object inherits under that name
  (\<open>object_members\<close>), else \<open>undefined\<close>. The names that only some engines add
  (\<open>__proto__\<close> and the like) are read here as names without an inherited member.
\<close>

fun truthy :: "jsval \<Rightarrow> bool" where
  "truthy VUndefined = False"
| "truthy VNull = False"
| "truthy (VString s) = (s \<noteq> [])"
| "truthy (VNumber (Finite r)) = (r \<noteq> 0)"
| "truthy (VNumber NaN) = False"
| "truthy (VNumber n) = True"
| "truthy (VBoolean b) = b"
| "truthy v = True"

record memory_storage =
  mem_items :: "string \<rightharpoonup> jsval"
  mem_keys :: "string list"
  mem_length :: int

definition mem_lookup :: "memory_storage \<Rightarrow> string \<Rightarrow> jsval" where
  "mem_lookup m k =
     (case mem_items m k of
        Some v \<Rightarrow> v
      | None \<Rightarrow> if k \<in> set object_members then VFunction else VUndefined)"

definition mem_empty :: memory_storage where
  "mem_empty = \<lparr>mem_items = Map.empty, mem_keys = [], mem_length = 0\<rparr>"

definition mem_key :: "memory_storage \<Rightarrow> nat \<Rightarrow> string option" where
  "mem_key m index = (if index < length (mem_keys m) then Some (mem_keys m ! index) else None)"

definition mem_getItem :: "memory_storage \<Rightarrow> string \<Rightarrow> jsval" where
  "mem_getItem m k = mem_lookup m k"

definition mem_setItem :: "memory_storage \<Rightarrow> string \<Rightarrow> jsval \<Rightarrow> memory_storage" where
  "mem_setItem m k v =
     (let m1 = (if \<not> truthy (mem_lookup m k)
                then m\<lparr>mem_keys := mem_keys m @ [k], mem_length := mem_length m + 1\<rparr>
                else m)
      in m1\<lparr>mem_items := (mem_items m1)(k \<mapsto> v)\<rparr>)"

text \<open>\<open>Ext.Array.remove\<close> deletes the first occurrence of the key.\<close>

definition mem_removeItem :: "memory_storage \<Rightarrow> string \<Rightarrow> memory_storage" where
  "mem_removeItem m k =
     (if \<not> truthy (mem_lookup m k) then m
      else m\<lparr>mem_keys := remove1 k (mem_keys m),
             mem_items := (mem_items m)(k := None),
             mem_length := mem_length m - 1\<rparr>)"

definition mem_clear :: "memory_storage \<Rightarrow> memory_storage" where
  "mem_clear m = m\<lparr>mem_items := Map.empty, mem_keys := [], mem_length := 0\<rparr>"

subsection \<open>Web storage\<close>

text \<open>
  \<open>window.localStorage\<close> and \<open>window.sessionStorage\<close> hold strings under string
  keys and enumerate their keys by index. The model is the list of the entries in the
  order of enumeration, a new key going last. \<open>Ext.JSON\<close> is the printer and parser of
  the framework, taken as inverse to each other: a stored string that is JSON text is
  given by the document it denotes (\<open>Encoded\<close>), any other string as it is (\<open>Plain\<close>).
\<close>

datatype stored_text = Encoded json | Plain string

type_synonym web_storage = "(string \<times> stored_text) list"

definition web_length :: "web_storage \<Rightarrow> nat" where
  "web_length w = length w"

definition web_key :: "web_storage \<Rightarrow> nat \<Rightarrow> string option" where
  "web_key w index = (if index < length w then Some (fst (w ! index)) else None)"

definition web_getItem :: "web_storage \<Rightarrow> string \<Rightarrow> stored_text option" where
  "web_getItem w k = map_of w k"

fun web_setItem :: "web_storage \<Rightarrow> string \<Rightarrow> stored_text \<Rightarrow> web_storage" where
  "web_setItem [] k t = [(k, t)]"
| "web_setItem ((k', t') # w) k t =
     (if k' = k then (k, t) # w else (k', t') # web_setItem w k t)"

definition web_removeItem :: "web_storage \<Rightarrow> string \<Rightarrow> web_storage" where
  "web_removeItem w k = filter (\<lambda>e. fst e \<noteq> k) w"

subsection \<open>The storage of a cache\<close>

text \<open>
  A cache holds one of the two. The flag \<open>webStorage\<close> of the source is set by the
  constructor exactly when the storage is a web storage, so it is read off the storage.
  \<open>stored\<close> is what \<open>getItem\<close> answers and \<open>setItem\<close> takes: a value kept as it is, a
  string, or \<open>null\<close> for a key the web storage does not have.
\<close>

datatype backend = Memory memory_storage | Web web_storage

datatype stored = Native jsval | Text stored_text | Missing

record cache =
  keyPrefix :: string
  storage :: backend

definition webStorage :: "cache \<Rightarrow> bool" where
  "webStorage c = (case storage c of Web w \<Rightarrow> True | Memory m \<Rightarrow> False)"

text \<open>
  The constructor: the configured prefix, or the default, with a web storage; no
  prefix with the memory storage.
\<close>

definition default_keyPrefix :: string where
  "default_keyPrefix = ''Ext.ux.Cache.''"

definition constructor :: "backend \<Rightarrow> string option \<Rightarrow> cache" where
  "constructor b prefix =
     (case b of
        Memory m \<Rightarrow> \<lparr>keyPrefix = [], storage = b\<rparr>
      | Web w \<Rightarrow>
          \<lparr>keyPrefix = (case prefix of None \<Rightarrow> default_keyPrefix | Some p \<Rightarrow> p), storage = b\<rparr>)"

fun storage_getItem :: "backend \<Rightarrow> string \<Rightarrow> stored" where
  "storage_getItem (Memory m) k = Native (mem_getItem m k)"
| "storage_getItem (Web w) k = (case web_getItem w k of None \<Rightarrow> Missing | Some t \<Rightarrow> Text t)"

text \<open>
  \<open>_freeze\<close> hands a value to the memory storage and a string to a web storage; the
  other two combinations do not arise and are outside the model.
\<close>

fun storage_setItem :: "backend \<Rightarrow> string \<Rightarrow> stored \<Rightarrow> error + backend" where
  "storage_setItem (Memory m) k (Native v) = Inr (Memory (mem_setItem m k v))"
| "storage_setItem (Web w) k (Text t) = Inr (Web (web_setItem w k t))"
| "storage_setItem b k x = Inl OutsideModel"

fun storage_removeItem :: "backend \<Rightarrow> string \<Rightarrow> backend" where
  "storage_removeItem (Memory m) k = Memory (mem_removeItem m k)"
| "storage_removeItem (Web w) k = Web (web_removeItem w k)"

fun storage_length :: "backend \<Rightarrow> int" where
  "storage_length (Memory m) = mem_length m"
| "storage_length (Web w) = int (web_length w)"

fun storage_key :: "backend \<Rightarrow> nat \<Rightarrow> string option" where
  "storage_key (Memory m) index = mem_key m index"
| "storage_key (Web w) index = web_key w index"

fun truthy_stored :: "stored \<Rightarrow> bool" where
  "truthy_stored (Native v) = truthy v"
| "truthy_stored (Text (Encoded j)) = True"
| "truthy_stored (Text (Plain s)) = (s \<noteq> [])"
| "truthy_stored Missing = False"

fun storage_clear :: "backend \<Rightarrow> backend" where
  "storage_clear (Memory m) = Memory (mem_clear m)"
| "storage_clear (Web w) = Web []"

section \<open>The cache\<close>

subsection \<open>Freezing and thawing\<close>

definition freeze :: "cache \<Rightarrow> jsval \<Rightarrow> error + stored" where
  "freeze c v =
     (if \<not> webStorage c then Inr (Native v)
      else (case serialize_value (get_value_type v) v of
              Inl e \<Rightarrow> Inl e
            | Inr result \<Rightarrow> Inr (Text (Encoded result))))"

fun JSON_decode :: "stored_text \<Rightarrow> error + json" where
  "JSON_decode (Encoded j) = Inr j"
| "JSON_decode (Plain s) = Inl JSONDecodeError"

definition thaw :: "cache \<Rightarrow> stored \<Rightarrow> error + jsval" where
  "thaw c x =
     (if \<not> webStorage c then (case x of Native v \<Rightarrow> Inr v | _ \<Rightarrow> Inl OutsideModel)
      else (case x of
              Text t \<Rightarrow>
                (case JSON_decode t of
                   Inl e \<Rightarrow> Inl e
                 | Inr thawed \<Rightarrow>
                (case get_property thawed ''type'' of
                   Inl e \<Rightarrow> Inl e
                 | Inr ty \<Rightarrow>
                (case get_property thawed ''value'' of
                   Inl e \<Rightarrow> Inl e
                 | Inr v \<Rightarrow> deserialize_value ty v)))
            | _ \<Rightarrow> Inl OutsideModel))"

definition fetch_value :: "cache \<Rightarrow> string \<Rightarrow> error + jsval" where
  "fetch_value c key =
     (let x = storage_getItem (storage c) (keyPrefix c @ key)
      in if truthy_stored x then thaw c x else Inr VUndefined)"

subsection \<open>Reading an entry\<close>

text \<open>
  \<open>item.expires\<close> and \<open>item.value\<close>: a \<open>TypeError\<close> on \<open>null\<close> and \<open>undefined\<close>, the
  own member of an object, \<open>undefined\<close> on a string, number, boolean, date, array,
  function or pattern.
\<close>

fun read_member :: "jsval \<Rightarrow> string \<Rightarrow> error + jsval" where
  "read_member VUndefined name = Inl TypeError"
| "read_member VNull name = Inl TypeError"
| "read_member (VObject ms) name = Inr (case map_of ms name of None \<Rightarrow> VUndefined | Some v \<Rightarrow> v)"
| "read_member (VString s) name = Inr VUndefined"
| "read_member (VNumber n) name = Inr VUndefined"
| "read_member (VBoolean b) name = Inr VUndefined"
| "read_member (VDate d) name = Inr VUndefined"
| "read_member (VArray xs) name = Inr VUndefined"
| "read_member VFunction name = Inr VUndefined"
| "read_member VRegexp name = Inr VUndefined"
| "read_member v name = Inl OutsideModel"

text \<open>
  \<open>expires < now\<close> with a number on the right: the left side is converted to a number
  (a date to its time value) and NaN is less than nothing.
\<close>

fun lt_number :: "number \<Rightarrow> int \<Rightarrow> bool" where
  "lt_number (Finite r) now = (r < of_int now)"
| "lt_number NegInfinity now = True"
| "lt_number n now = False"

fun less_than :: "jsval \<Rightarrow> int \<Rightarrow> bool option" where
  "less_than (VDate d) now = Some (lt_number (time_value d) now)"
| "less_than (VNumber n) now = Some (lt_number n now)"
| "less_than (VBoolean b) now = Some (lt_number (Finite (if b then 1 else 0)) now)"
| "less_than (VString s) now = map_option (\<lambda>n. lt_number n now) (string_to_number s)"
| "less_than VNull now = Some (lt_number (Finite 0) now)"
| "less_than VUndefined now = Some False"
| "less_than v now = None"

definition remove :: "cache \<Rightarrow> string \<Rightarrow> cache" where
  "remove c key = c\<lparr>storage := storage_removeItem (storage c) (keyPrefix c @ key)\<rparr>"

text \<open>
  \<open>get\<close> at the time \<open>now\<close> (\<open>Ext.Date.now()\<close>): the value returned, or the error
  raised, and the cache afterwards.
\<close>

definition get :: "cache \<Rightarrow> int \<Rightarrow> string \<Rightarrow> (error + jsval) \<times> cache" where
  "get c now key =
     (case fetch_value c key of
        Inl e \<Rightarrow> (Inl e, c)
      | Inr item \<Rightarrow>
          if item = VUndefined then (Inr VUndefined, c)
          else (case read_member item ''expires'' of
                  Inl e \<Rightarrow> (Inl e, c)
                | Inr expires \<Rightarrow>
                    if \<not> truthy expires then (read_member item ''value'', c)
                    else (case less_than expires now of
                            None \<Rightarrow> (Inl OutsideModel, c)
                          | Some True \<Rightarrow> (Inr VUndefined, remove c key)
                          | Some False \<Rightarrow> (read_member item ''value'', c))))"

definition has :: "cache \<Rightarrow> string \<Rightarrow> error + bool" where
  "has c key =
     (case fetch_value c key of Inl e \<Rightarrow> Inl e | Inr item \<Rightarrow> Inr (item \<noteq> VUndefined))"

subsection \<open>Listing and clearing\<close>

text \<open>\<open>key.indexOf(pfx)\<close>: the first position at which \<open>pfx\<close> occurs in \<open>key\<close>.\<close>

fun indexOf :: "string \<Rightarrow> string \<Rightarrow> nat option" where
  "indexOf [] pfx = (if pfx = [] then Some 0 else None)"
| "indexOf (c # cs) pfx =
     (if take (length pfx) (c # cs) = pfx then Some 0 else map_option Suc (indexOf cs pfx))"

text \<open>
  The loop of \<open>_get_keys\<close> over the indices below \<open>storage.length\<close>. A storage that
  answers \<open>undefined\<close> for an index makes \<open>key.indexOf\<close> a \<open>TypeError\<close>.
\<close>

fun get_keys_loop :: "backend \<Rightarrow> string \<Rightarrow> nat list \<Rightarrow> error + string list" where
  "get_keys_loop b pfx [] = Inr []"
| "get_keys_loop b pfx (i # is) =
     (case storage_key b i of
        None \<Rightarrow> Inl TypeError
      | Some key \<Rightarrow>
          (case get_keys_loop b pfx is of
             Inl e \<Rightarrow> Inl e
           | Inr ks \<Rightarrow>
               Inr (case indexOf key pfx of
                      None \<Rightarrow> ks
                    | Some idx \<Rightarrow> drop (idx + length pfx) key # ks)))"

definition get_keys :: "cache \<Rightarrow> backend \<Rightarrow> error + string list" where
  "get_keys c b = get_keys_loop b (keyPrefix c) [0 ..< nat (storage_length b)]"

definition keys :: "cache \<Rightarrow> error + string list" where
  "keys c = get_keys c (storage c)"

definition clear :: "cache \<Rightarrow> error + cache" where
  "clear c =
     (if \<not> webStorage c then Inr (c\<lparr>storage := storage_clear (storage c)\<rparr>)
      else (case keys c of
              Inl e \<Rightarrow> Inl e
            | Inr ks \<Rightarrow> Inr (fold (\<lambda>k c'. remove c' k) ks c)))"

subsection \<open>Writing an entry\<close>

text \<open>
  \<open>Ext.Date.add(new Date(), Ext.Date.MILLI, n)\<close> sets the milliseconds field of the
  current date to its value plus \<open>n\<close>; the field is cut to an integer. The model is
  for a zone whose clock does not change between the two instants.
\<close>

definition date_add_milli :: "int \<Rightarrow> rat \<Rightarrow> int option" where
  "date_add_milli now n =
     new_Date (Finite (of_int (now - now mod 1000 + truncate_rat (of_int (now mod 1000) + n))))"

fun isNumber :: "jsval \<Rightarrow> bool" where
  "isNumber (VNumber (Finite r)) = True"
| "isNumber v = False"

fun isDate :: "jsval \<Rightarrow> bool" where
  "isDate (VDate d) = True"
| "isDate v = False"

text \<open>
  \<open>set\<close> at the time \<open>now\<close> (\<open>new Date()\<close>). The key is any value, as the check for a
  string is part of the function; a missing third argument is \<open>VUndefined\<close>.
\<close>

definition expiration :: "int \<Rightarrow> jsval \<Rightarrow> jsval" where
  "expiration now expires =
     (case expires of
        VDate d \<Rightarrow> expires
      | VNumber (Finite n) \<Rightarrow> VDate (date_add_milli now n)
      | _ \<Rightarrow> VUndefined)"

definition entry :: "jsval \<Rightarrow> jsval \<Rightarrow> jsval" where
  "entry v ex = VObject [(''value'', v), (''expires'', ex)]"

definition set_item :: "cache \<Rightarrow> int \<Rightarrow> jsval \<Rightarrow> jsval \<Rightarrow> jsval \<Rightarrow> (error + jsval) \<times> cache" where
  "set_item c now key v expires =
     (case key of
        VString k \<Rightarrow>
          if k = [] then (Inl InvalidKey, c)
          else if v = VUndefined then (Inl InvalidValue, c)
          else if get_value_type v \<in> set unsupported_types
            then (Inl (UnsupportedType (get_value_type v)), c)
          else if expires \<noteq> VUndefined \<and> \<not> isNumber expires \<and> \<not> isDate expires
            then (Inl InvalidExpiration, c)
          else
            (let c1 = remove c k;
                 ex = expiration now expires
             in case freeze c1 (entry v ex) of
                  Inl e \<Rightarrow> (Inl e, c1)
                | Inr frozen \<Rightarrow>
                    (case storage_setItem (storage c1) (keyPrefix c1 @ k) frozen of
                       Inl e \<Rightarrow> (Inl e, c1)
                     | Inr b \<Rightarrow> (Inr v, c1\<lparr>storage := b\<rparr>)))
      | _ \<Rightarrow> (Inl InvalidKey, c))"

section \<open>Decimal strings\<close>

text \<open>Reading the decimal digits of a number gives the number back.\<close>

lemma digit_val_digit_char: "d < 10 \<Longrightarrow> digit_val (digit_char d) = Some d"
  by (simp add: digit_val_def digit_char_def Let_def)

lemma read_digits_append:
  "read_digits acc (xs @ ys) =
     (case read_digits acc xs of None \<Rightarrow> None | Some a \<Rightarrow> read_digits a ys)"
  by (induction xs arbitrary: acc) (auto split: option.splits)

lemma read_digits_show_nat: "read_digits 0 (show_nat n) = Some n"
proof (induction n rule: show_nat.induct)
  case (1 n)
  show ?case
  proof (cases "n < 10")
    case True
    then show ?thesis
      by (subst show_nat.simps) (simp add: digit_val_digit_char)
  next
    case False
    with 1 have "read_digits 0 (show_nat (n div 10)) = Some (n div 10)" by simp
    with False show ?thesis
      by (subst show_nat.simps) (simp add: read_digits_append digit_val_digit_char)
  qed
qed

lemma show_nat_digits: "list_all (\<lambda>c. digit_val c \<noteq> None) (show_nat n)"
proof (induction n rule: show_nat.induct)
  case (1 n)
  show ?case
  proof (cases "n < 10")
    case True
    then show ?thesis
      by (subst show_nat.simps) (simp add: digit_val_digit_char)
  next
    case False
    with 1 show ?thesis
      by (subst show_nat.simps) (simp add: digit_val_digit_char)
  qed
qed

lemma show_nat_not_Nil: "show_nat n \<noteq> []"
  by (subst show_nat.simps) simp

lemma read_nat_show_nat: "read_nat (show_nat n) = Some n"
  by (simp add: read_nat_def show_nat_not_Nil read_digits_show_nat)

lemma show_nat_hd: "show_nat n = c # cs \<Longrightarrow> digit_val c \<noteq> None"
  using show_nat_digits [of n] by simp

lemma string_to_number_show_nat:
  assumes "int n \<le> max_safe"
  shows "string_to_number (show_nat n) = Some (Finite (of_nat n))"
proof -
  obtain c cs where s: "show_nat n = c # cs"
    using show_nat_not_Nil [of n] by (cases "show_nat n") auto
  have d: "digit_val c \<noteq> None" using show_nat_hd [OF s] .
  then have c: "c \<noteq> CHR ''I''" "c \<noteq> CHR ''+''" "c \<noteq> CHR ''-''"
    by (auto simp: digit_val_def)
  have nn: "\<not> not_numeric (c # cs)"
    using d by (simp add: not_numeric_def)
  have rn: "read_nat (c # cs) = Some n"
    using read_nat_show_nat [of n] s by simp
  show ?thesis
    unfolding s string_to_number_def using c nn rn assms by simp
qed

lemma string_to_number_show_int:
  assumes "\<bar>t\<bar> \<le> max_safe"
  shows "string_to_number (show_int t) = Some (Finite (of_int t))"
proof (cases "t < 0")
  case False
  then show ?thesis
    using string_to_number_show_nat [of "nat t"] assms by (simp add: show_int_def)
next
  case True
  have rn: "read_nat (show_nat (nat (- t))) = Some (nat (- t))" by (rule read_nat_show_nat)
  obtain c cs where s: "show_nat (nat (- t)) = c # cs"
    using show_nat_not_Nil [of "nat (- t)"] by (cases "show_nat (nat (- t))") auto
  have d: "digit_val c \<noteq> None" using show_nat_hd [OF s] .
  then have c: "c \<noteq> CHR ''I''" by (auto simp: digit_val_def)
  have nn: "\<not> not_numeric (CHR ''-'' # c # cs)"
    using d by (simp add: not_numeric_def)
  have "of_nat (nat (- t)) = (- of_int t :: rat)" using True by simp
  then show ?thesis
    unfolding show_int_def string_to_number_def using True rn s c nn assms
    by simp
qed

section \<open>Round trip\<close>

text \<open>
  The values that \<open>_serialize_value\<close> accepts: no function, pattern, element or text
  node at any depth, every date a date of the host language, and no object with an own
  member named \<open>hasOwnProperty\<close> or \<open>__proto__\<close>. \<open>undefined\<close> is among them (it is
  legal below the top level).
\<close>

fun storable :: "jsval \<Rightarrow> bool" where
  "storable (VArray xs) = list_all storable xs"
| "storable (VObject ms) =
     (''hasOwnProperty'' \<notin> fst ` set ms \<and> ''__proto__'' \<notin> fst ` set ms \<and>
      list_all (\<lambda>m. storable (snd m)) ms)"
| "storable (VDate d) = valid_time d"
| "storable VFunction = False"
| "storable VRegexp = False"
| "storable VElement = False"
| "storable VTextnode = False"
| "storable VWhitespace = False"
| "storable v = True"

text \<open>
  \<open>serialize\<close> is the call \<open>_serialize_value(_get_value_type(x), x)\<close>, made in three
  places of the source; \<open>read_item\<close> is what the two loops of the deserializer do with
  one item, and what \<open>_thaw\<close> does with a document apart from the check.
\<close>

definition serialize :: "jsval \<Rightarrow> error + json" where
  "serialize v = serialize_value (get_value_type v) v"

definition read_item :: "json \<Rightarrow> error + jsval" where
  "read_item item =
     (case get_property item ''type'' of
        Inl e \<Rightarrow> Inl e
      | Inr item_type \<Rightarrow>
     (case get_property item ''value'' of
        Inl e \<Rightarrow> Inl e
      | Inr item_value \<Rightarrow>
     (case check_serialized item of
        Inl e \<Rightarrow> Inl e
      | Inr ok \<Rightarrow> deserialize_value item_type item_value)))"

lemma deserialize_array_loop_Cons:
  "deserialize_array_loop (item # rest) =
     (case read_item item of
        Inl e \<Rightarrow> Inl e
      | Inr x \<Rightarrow> (case deserialize_array_loop rest of Inl e \<Rightarrow> Inl e | Inr xs \<Rightarrow> Inr (x # xs)))"
  by (simp add: read_item_def split: sum.splits)

lemma deserialize_object_loop_Cons:
  "deserialize_object_loop ((i, item) # rest) =
     (case read_item item of
        Inl e \<Rightarrow> Inl e
      | Inr x \<Rightarrow> (case deserialize_object_loop rest of Inl e \<Rightarrow> Inl e | Inr xs \<Rightarrow> Inr ((i, x) # xs)))"
  by (simp add: read_item_def split: sum.splits)

lemma read_item_node:
  "t \<in> {''string'', ''number'', ''boolean'', ''date'', ''array'', ''object''} \<Longrightarrow>
   read_item (node t p) = deserialize_value (Some (JStr t)) (Some p)"
  by (auto simp: read_item_def node_def)

lemma read_item_undefined: "read_item (serialize_undefined v) = Inr VUndefined"
  by (simp add: read_item_def serialize_undefined_def inherited_members_def object_members_def functionTable_def)

lemma read_item_null: "read_item (serialize_null v) = Inr VNull"
  by (simp add: read_item_def serialize_null_def inherited_members_def object_members_def functionTable_def)

lemma not_numeric_NaN: "not_numeric ''NaN''"
  by (simp add: not_numeric_def digit_val_def is_letter_def)

lemma max_time_le_max_safe: "\<bar>t\<bar> \<le> max_time \<Longrightarrow> \<bar>t\<bar> \<le> max_safe"
  by (simp add: max_time_def max_safe_def)

lemma deserialize_date_roundtrip:
  assumes "storable (VDate d)"
  shows "\<exists>s. number_to_string (time_value d) = Some s \<and>
             deserialize_date (Some (JStr s)) = Inr (VDate d)"
proof (cases d)
  case None
  then show ?thesis
    by (simp add: deserialize_date_def string_to_number_def not_numeric_NaN)
next
  case (Some t)
  with assms have b: "\<bar>t\<bar> \<le> max_time" by simp
  have r: "\<bar>of_int t :: rat\<bar> \<le> of_int max_time"
    using b by (metis of_int_abs of_int_le_iff)
  have "\<bar>of_int t :: rat\<bar> < 10 ^ 21"
  proof -
    have "of_int max_time < (10 ^ 21 :: rat)" by (simp add: max_time_def)
    with r show ?thesis by linarith
  qed
  then have n: "number_to_string (time_value d) = Some (show_int t)"
    using Some by simp
  have "deserialize_date (Some (JStr (show_int t))) = Inr (VDate (Some t))"
    using string_to_number_show_int [OF max_time_le_max_safe [OF b]] r
    by (simp add: deserialize_date_def truncate_rat_def)
  with n Some show ?thesis by simp
qed


lemma array_loop_roundtrip:
  assumes "\<And>x. x \<in> set xs \<Longrightarrow> storable x \<Longrightarrow> \<exists>j. serialize x = Inr j \<and> read_item j = Inr x"
    and "list_all storable xs"
  shows "\<exists>js. serialize_array_loop xs = Inr js \<and> deserialize_array_loop js = Inr xs"
  using assms
proof (induction xs)
  case Nil
  then show ?case by simp
next
  case (Cons x xs)
  from Cons.prems obtain j where j: "serialize x = Inr j" "read_item j = Inr x"
    by force
  from Cons obtain js where js: "serialize_array_loop xs = Inr js" "deserialize_array_loop js = Inr xs"
    by force
  have "serialize_array_loop (x # xs) = Inr (j # js)"
    using j(1) js(1) by (simp add: serialize_def)
  moreover have "deserialize_array_loop (j # js) = Inr (x # xs)"
    using j(2) js(2) by (simp add: deserialize_array_loop_Cons del: deserialize_array_loop.simps)
  ultimately show ?case by blast
qed

lemma object_loop_roundtrip:
  assumes "\<And>k x. (k, x) \<in> set ms \<Longrightarrow> storable x \<Longrightarrow> \<exists>j. serialize x = Inr j \<and> read_item j = Inr x"
    and "list_all (\<lambda>m. storable (snd m)) ms"
  shows "\<exists>js. serialize_object_loop ms = Inr js \<and> map fst js = map fst ms \<and>
              deserialize_object_loop js = Inr ms"
  using assms
proof (induction ms)
  case Nil
  then show ?case by simp
next
  case (Cons m ms)
  obtain k x where m: "m = (k, x)" by (cases m)
  from Cons.prems m obtain j where j: "serialize x = Inr j" "read_item j = Inr x"
    by force
  from Cons obtain js where js: "serialize_object_loop ms = Inr js" "map fst js = map fst ms"
    "deserialize_object_loop js = Inr ms"
    by force
  have "serialize_object_loop (m # ms) = Inr ((k, j) # js)"
    using j(1) js(1) m by (simp add: serialize_def)
  moreover have "deserialize_object_loop ((k, j) # js) = Inr (m # ms)"
    using j(2) js(3) m by (simp add: deserialize_object_loop_Cons del: deserialize_object_loop.simps)
  moreover have "map fst ((k, j) # js) = map fst (m # ms)"
    using js(2) m by simp
  ultimately show ?case by blast
qed

lemma map_of_None_fst: "map_of ms k = None \<longleftrightarrow> k \<notin> fst ` set ms"
  by (simp add: map_of_eq_None_iff)

lemma deserialize_value_tag:
  "deserialize_value (Some (JStr ''string'')) v = deserialize_string v"
  "deserialize_value (Some (JStr ''number'')) v = deserialize_number v"
  "deserialize_value (Some (JStr ''boolean'')) v = deserialize_boolean v"
  "deserialize_value (Some (JStr ''date'')) v = deserialize_date v"
  "deserialize_value (Some (JStr ''array'')) v = deserialize_array v"
  "deserialize_value (Some (JStr ''object'')) v = deserialize_object v"
  by (simp_all add: inherited_members_def object_members_def functionTable_def)

lemma serialize_roundtrip:
  "storable v \<Longrightarrow> \<exists>j. serialize v = Inr j \<and> read_item j = Inr v"
proof (induction v)
  case VUndefined
  show ?case by (simp add: serialize_def read_item_undefined)
next
  case VNull
  show ?case by (simp add: serialize_def read_item_null)
next
  case (VString s)
  show ?case
    by (simp add: serialize_def read_item_node deserialize_value_tag deserialize_string_def
        del: deserialize_value.simps)
next
  case (VNumber n)
  show ?case
    by (cases n)
      (simp_all add: serialize_def read_item_node deserialize_value_tag deserialize_number_def
        del: deserialize_value.simps)
next
  case (VBoolean b)
  show ?case
    by (simp add: serialize_def read_item_node deserialize_value_tag deserialize_boolean_def
        del: deserialize_value.simps)
next
  case (VDate d)
  from deserialize_date_roundtrip [OF VDate] obtain s where
    "number_to_string (time_value d) = Some s" "deserialize_date (Some (JStr s)) = Inr (VDate d)"
    by blast
  with VDate show ?case
    by (simp add: serialize_def read_item_node deserialize_value_tag del: deserialize_value.simps)
next
  case (VArray xs)
  then have "\<exists>js. serialize_array_loop xs = Inr js \<and> deserialize_array_loop js = Inr xs"
    by (intro array_loop_roundtrip) auto
  then obtain js where "serialize_array_loop xs = Inr js" "deserialize_array_loop js = Inr xs"
    by blast
  then show ?case
    by (simp add: serialize_def read_item_node deserialize_value_tag del: deserialize_value.simps)
next
  case (VObject ms)
  have "\<exists>js. serialize_object_loop ms = Inr js \<and> map fst js = map fst ms \<and>
             deserialize_object_loop js = Inr ms"
  proof (rule object_loop_roundtrip)
    fix k x
    assume "(k, x) \<in> set ms" "storable x"
    then show "\<exists>j. serialize x = Inr j \<and> read_item j = Inr x"
      using VObject.IH [of "(k, x)" x] by simp
  next
    show "list_all (\<lambda>m. storable (snd m)) ms" using VObject.prems by simp
  qed
  then obtain js where js: "serialize_object_loop ms = Inr js" "map fst js = map fst ms"
    "deserialize_object_loop js = Inr ms"
    by blast
  from VObject.prems have n: "map_of ms ''hasOwnProperty'' = None" "''__proto__'' \<notin> fst ` set ms"
    by (simp_all add: map_of_None_fst)
  have "fst ` set js = fst ` set ms"
    using js(2) by (metis set_map)
  with n(2) have p: "''__proto__'' \<notin> fst ` set js" by simp
  have "serialize (VObject ms) = Inr (node ''object'' (JObj js))"
    using js(1) n by (simp add: serialize_def)
  moreover have "read_item (node ''object'' (JObj js)) = Inr (VObject ms)"
    using js(3) p by (simp add: read_item_node deserialize_value_tag del: deserialize_value.simps)
  ultimately show ?case by blast
qed simp_all


text \<open>Only storable values are serialized.\<close>

lemma array_loop_storable:
  assumes "\<And>x j. x \<in> set xs \<Longrightarrow> serialize x = Inr j \<Longrightarrow> storable x"
    and "serialize_array_loop xs = Inr js"
  shows "list_all storable xs"
  using assms
proof (induction xs arbitrary: js)
  case Nil
  then show ?case by simp
next
  case (Cons x xs)
  from Cons.prems(2) obtain j js' where
    "serialize x = Inr j" "serialize_array_loop xs = Inr js'"
    by (auto simp: serialize_def split: sum.splits simp del: serialize_value.simps)
  with Cons show ?case by auto
qed

lemma object_loop_storable:
  assumes "\<And>k x j. (k, x) \<in> set ms \<Longrightarrow> serialize x = Inr j \<Longrightarrow> storable x"
    and "serialize_object_loop ms = Inr js"
  shows "list_all (\<lambda>m. storable (snd m)) ms"
  using assms
proof (induction ms arbitrary: js)
  case Nil
  then show ?case by simp
next
  case (Cons m ms)
  obtain k x where m: "m = (k, x)" by (cases m)
  from Cons.prems(2) m obtain j js' where
    "serialize x = Inr j" "serialize_object_loop ms = Inr js'"
    by (auto simp: serialize_def split: sum.splits simp del: serialize_value.simps)
  with Cons m show ?case by auto
qed

lemma serialize_storable: "serialize v = Inr j \<Longrightarrow> storable v"
proof (induction v arbitrary: j)
  case (VDate d)
  then show ?case by (auto simp: serialize_def split: if_splits)
next
  case (VArray xs)
  from VArray.prems obtain js where "serialize_array_loop xs = Inr js"
    by (auto simp: serialize_def split: sum.splits)
  then have "list_all storable xs"
    using VArray.IH by (intro array_loop_storable [where js = js]) auto
  then show ?case by simp
next
  case (VObject ms)
  from VObject.prems have n: "map_of ms ''hasOwnProperty'' = None"
    by (auto simp: serialize_def split: option.splits if_splits)
  with VObject.prems have p: "''__proto__'' \<notin> fst ` set ms"
    by (auto simp: serialize_def split: if_splits)
  from VObject.prems n p obtain js where js: "serialize_object_loop ms = Inr js"
    by (auto simp: serialize_def split: sum.splits)
  have "list_all (\<lambda>m. storable (snd m)) ms"
  proof (rule object_loop_storable [OF _ js])
    fix k x j
    assume "(k, x) \<in> set ms" "serialize x = Inr j"
    then show "storable x" using VObject.IH [of "(k, x)" x j] by simp
  qed
  with n p show ?case by (simp add: map_of_None_fst)
qed (simp_all add: serialize_def)

lemma serialize_read_item: "serialize v = Inr j \<Longrightarrow> read_item j = Inr v"
  using serialize_roundtrip [OF serialize_storable, of v j] by auto


lemma read_item_parts:
  "read_item j = Inr v \<Longrightarrow>
   \<exists>ty p. get_property j ''type'' = Inr ty \<and> get_property j ''value'' = Inr p \<and>
          check_serialized j = Inr () \<and> deserialize_value ty p = Inr v"
  by (auto simp: read_item_def split: sum.splits simp del: deserialize_value.simps)

text \<open>
  For every storable value, \<open>_serialize_value\<close> succeeds, and \<open>_deserialize_value\<close>
  applied to the type tag and the payload of the node it built gives the value back.
  Equality of values in the model is the observable one: two dates are equal when
  their time values are (two invalid dates are equal), and NaN is equal to NaN.
\<close>

lemma storable_roundtrip:
  "storable v \<Longrightarrow>
   \<exists>j ty p. serialize_value (get_value_type v) v = Inr j \<and>
            get_property j ''type'' = Inr ty \<and>
            get_property j ''value'' = Inr p \<and>
            deserialize_value ty p = Inr v"
  using serialize_roundtrip [of v] read_item_parts unfolding serialize_def by blast

text \<open>
  C1. The round trip holds for the storable values (\<open>storable_roundtrip\<close>), but not
  for every object: \<open>_serialize_object\<close> asks \<open>object.hasOwnProperty(i)\<close> of the object
  it is given, and an object with an own member of that name answers with the member.
  For the object \<open>{hasOwnProperty: 1}\<close> the serialization, and with it \<open>set\<close> on a web
  storage, ends in a \<open>TypeError\<close>.
\<close>

theorem serialize_own_hasOwnProperty_fails:
  "get_value_type (VObject [(''hasOwnProperty'', VNumber (Finite 1))]) = ''object'' \<and>
   serialize_value ''object'' (VObject [(''hasOwnProperty'', VNumber (Finite 1))]) = Inl TypeError \<and>
   fst (set_item \<lparr>keyPrefix = ''p.'', storage = Web []\<rparr> 0 (VString ''k'')
          (VObject [(''hasOwnProperty'', VNumber (Finite 1))]) VUndefined) = Inl TypeError"
  by (simp add: set_item_def unsupported_types_def remove_def web_removeItem_def freeze_def
      webStorage_def entry_def expiration_def)

section \<open>Freezing, thawing and the entry of a key\<close>

lemma thaw_freeze_memory:
  "\<not> webStorage c \<Longrightarrow> freeze c v = Inr (Native v) \<and> thaw c (Native v) = Inr v"
  by (simp add: freeze_def thaw_def)

lemma thaw_freeze_web:
  assumes "webStorage c" "freeze c v = Inr x"
  shows "thaw c x = Inr v"
proof -
  from assms obtain j where j: "serialize v = Inr j" "x = Text (Encoded j)"
    by (auto simp: freeze_def serialize_def split: sum.splits simp del: serialize_value.simps)
  from read_item_parts [OF serialize_read_item [OF j(1)]] obtain ty p where
    "get_property j ''type'' = Inr ty" "get_property j ''value'' = Inr p"
    "deserialize_value ty p = Inr v" by blast
  then show ?thesis
    using assms(1) j(2) by (simp add: thaw_def del: deserialize_value.simps)
qed

lemma freeze_truthy: "freeze c e = Inr x \<Longrightarrow> truthy e \<Longrightarrow> truthy_stored x"
  by (auto simp: freeze_def split: if_splits sum.splits simp del: serialize_value.simps)

lemma storable_entry: "storable (entry v ex) = (storable v \<and> storable ex)"
  by (auto simp: entry_def)

lemma truthy_entry: "truthy (entry v ex)"
  by (simp add: entry_def)

text \<open>What a fetch finds when the storage holds a frozen entry under the key.\<close>

lemma fetch_frozen:
  assumes "truthy e"
    and "freeze c e = Inr x"
    and "storage_getItem (storage c) (keyPrefix c @ key) = x"
  shows "fetch_value c key = Inr e"
proof (cases "webStorage c")
  case False
  then show ?thesis
    using assms thaw_freeze_memory [OF False, of e] by (auto simp: fetch_value_def)
next
  case True
  from thaw_freeze_web [OF True assms(2)] freeze_truthy [OF assms(2,1)] assms(3) show ?thesis
    by (simp add: fetch_value_def)
qed

lemma read_member_entry:
  "read_member (entry v ex) ''expires'' = Inr ex"
  "read_member (entry v ex) ''value'' = Inr v"
  by (simp_all add: entry_def)

lemma entry_not_undefined: "entry v ex \<noteq> VUndefined"
  by (simp add: entry_def)

lemma get_expiring:
  assumes "freeze c (entry v (VDate (Some t))) = Inr x"
    and "storage_getItem (storage c) (keyPrefix c @ key) = x"
  shows "get c now key = (if t < now then (Inr VUndefined, remove c key) else (Inr v, c))"
proof -
  have "fetch_value c key = Inr (entry v (VDate (Some t)))"
    using assms by (intro fetch_frozen) (simp_all add: truthy_entry)
  then show ?thesis
    by (simp add: get_def read_member_entry entry_not_undefined)
qed

lemma get_persistent:
  assumes "freeze c (entry v VUndefined) = Inr x"
    and "storage_getItem (storage c) (keyPrefix c @ key) = x"
  shows "get c now key = (Inr v, c)"
proof -
  have "fetch_value c key = Inr (entry v VUndefined)"
    using assms by (intro fetch_frozen) (simp_all add: truthy_entry)
  then show ?thesis
    by (simp add: get_def read_member_entry entry_not_undefined)
qed

lemma map_of_web_removeItem: "map_of (web_removeItem w k) k' = (if k' = k then None else map_of w k')"
  by (induction w) (auto simp: web_removeItem_def)

lemma map_of_web_setItem: "map_of (web_setItem w k t) k' = (if k' = k then Some t else map_of w k')"
  by (induction w) auto

text \<open>
  \<open>storage_holds\<close>: the storage has an entry of its own under the key. After a fetch
  has found a frozen entry under a key, \<open>remove\<close> leaves none there.
\<close>

fun storage_holds :: "backend \<Rightarrow> string \<Rightarrow> bool" where
  "storage_holds (Memory m) k = (mem_items m k \<noteq> None)"
| "storage_holds (Web w) k = (map_of w k \<noteq> None)"

lemma removed_is_gone:
  assumes "freeze c (entry v ex) = Inr x"
    and "storage_getItem (storage c) (keyPrefix c @ key) = x"
  shows "\<not> storage_holds (storage (remove c key)) (keyPrefix c @ key)"
proof (cases "storage c")
  case (Memory m)
  then have "x = Native (entry v ex)" using assms(1) by (simp add: freeze_def webStorage_def)
  with assms(2) Memory have "mem_lookup m (keyPrefix c @ key) = entry v ex"
    by (simp add: mem_getItem_def)
  then have "truthy (mem_lookup m (keyPrefix c @ key))" by (simp add: truthy_entry)
  then show ?thesis
    using Memory by (simp add: remove_def mem_removeItem_def)
next
  case (Web w)
  then show ?thesis
    by (simp add: remove_def map_of_web_removeItem)
qed

text \<open>
  C4. Let the storage hold, under the prefixed key, the frozen entry of a value \<open>v\<close>
  with the expiration date \<open>t\<close>. At a time \<open>now\<close> with \<open>t < now\<close>, \<open>get\<close> returns
  \<open>undefined\<close> and leaves the cache with the entry removed; at a time with \<open>now \<le> t\<close>,
  the time \<open>t\<close> itself included, it returns \<open>v\<close> and leaves the cache as it was.
\<close>

theorem get_expiration_boundary:
  assumes "freeze c (entry v (VDate (Some t))) = Inr x"
    and "storage_getItem (storage c) (keyPrefix c @ key) = x"
  shows "(t < now \<longrightarrow>
            get c now key = (Inr VUndefined, remove c key) \<and>
            \<not> storage_holds (storage (remove c key)) (keyPrefix c @ key)) \<and>
         (now \<le> t \<longrightarrow> get c now key = (Inr v, c))"
  using get_expiring [OF assms, of now] removed_is_gone [OF assms] by simp

theorem get_expiration_boundary_witness:
  "freeze \<lparr>keyPrefix = ''p.'', storage = Web [(''p.a'',
        Encoded (node ''object'' (JObj [(''value'', node ''string'' (JStr ''v'')),
                                         (''expires'', node ''date'' (JStr ''1000''))])))]\<rparr>
     (entry (VString ''v'') (VDate (Some 1000)))
     = Inr (Text (Encoded (node ''object'' (JObj [(''value'', node ''string'' (JStr ''v'')),
                                         (''expires'', node ''date'' (JStr ''1000''))])))) \<and>
   storage_getItem (Web [(''p.a'',
        Encoded (node ''object'' (JObj [(''value'', node ''string'' (JStr ''v'')),
                                         (''expires'', node ''date'' (JStr ''1000''))])))]) ''p.a''
     = Text (Encoded (node ''object'' (JObj [(''value'', node ''string'' (JStr ''v'')),
                                         (''expires'', node ''date'' (JStr ''1000''))]))) \<and>
   get \<lparr>keyPrefix = ''p.'', storage = Web [(''p.a'',
        Encoded (node ''object'' (JObj [(''value'', node ''string'' (JStr ''v'')),
                                         (''expires'', node ''date'' (JStr ''1000''))])))]\<rparr> 1000 ''a''
     = (Inr (VString ''v''),
        \<lparr>keyPrefix = ''p.'', storage = Web [(''p.a'',
        Encoded (node ''object'' (JObj [(''value'', node ''string'' (JStr ''v'')),
                                         (''expires'', node ''date'' (JStr ''1000''))])))]\<rparr>) \<and>
   get \<lparr>keyPrefix = ''p.'', storage = Web [(''p.a'',
        Encoded (node ''object'' (JObj [(''value'', node ''string'' (JStr ''v'')),
                                         (''expires'', node ''date'' (JStr ''1000''))])))]\<rparr> 1001 ''a''
     = (Inr VUndefined, \<lparr>keyPrefix = ''p.'', storage = Web []\<rparr>)"
proof -
  let ?j = "node ''object'' (JObj [(''value'', node ''string'' (JStr ''v'')),
                                   (''expires'', node ''date'' (JStr ''1000''))])"
  let ?c = "\<lparr>keyPrefix = ''p.'', storage = Web [(''p.a'', Encoded ?j)]\<rparr>"
  have s: "show_int 1000 = ''1000''"
    by code_simp
  have h3: "freeze ?c (entry (VString ''v'') (VDate (Some 1000))) = Inr (Text (Encoded ?j))"
    by (simp add: freeze_def webStorage_def entry_def s max_time_def)
  have h4: "storage_getItem (storage ?c) (keyPrefix ?c @ ''a'') = Text (Encoded ?j)"
    by (simp add: web_getItem_def)
  have r: "remove ?c ''a'' = \<lparr>keyPrefix = ''p.'', storage = Web []\<rparr>"
    by (simp add: remove_def web_removeItem_def)
  from get_expiration_boundary [OF h3 h4, of 1000] get_expiration_boundary [OF h3 h4, of 1001]
    h3 h4 r
  show ?thesis by simp
qed

lemma has_frozen:
  assumes "truthy e"
    and "e \<noteq> VUndefined"
    and "freeze c e = Inr x"
    and "storage_getItem (storage c) (keyPrefix c @ key) = x"
  shows "has c key = Inr True"
  using fetch_frozen [OF assms(1,3,4)] assms(2) by (simp add: has_def)

text \<open>
  C5, as stated, fails. \<open>has\<close> compares what the fetch gives with \<open>undefined\<close>, and the
  fetch thaws the stored item only when it is truthy. A storage that holds the empty
  string, or the document with the tag \<open>undefined\<close>, under the prefixed key holds an
  item there, and \<open>has\<close> answers false. On the empty in-memory storage the fetch
  under a key that names a function every object inherits (here \<open>toString\<close>) gives
  that function, and \<open>has\<close> answers true although nothing is held.
\<close>

theorem has_not_backend_presence_counterexample:
  "storage_holds (Web [(''p.k'', Plain [])]) ''p.k'' \<and>
   has \<lparr>keyPrefix = ''p.'', storage = Web [(''p.k'', Plain [])]\<rparr> ''k'' = Inr False \<and>
   storage_holds (Web [(''p.k'', Encoded (JObj [(''type'', JStr ''undefined'')]))]) ''p.k'' \<and>
   has \<lparr>keyPrefix = ''p.'',
        storage = Web [(''p.k'', Encoded (JObj [(''type'', JStr ''undefined'')]))]\<rparr> ''k''
     = Inr False \<and>
   \<not> storage_holds (Memory mem_empty) ''toString'' \<and>
   has \<lparr>keyPrefix = [], storage = Memory mem_empty\<rparr> ''toString'' = Inr True"
  by (simp add: has_def fetch_value_def thaw_def webStorage_def web_getItem_def
      mem_getItem_def mem_lookup_def mem_empty_def object_members_def
      inherited_members_def functionTable_def)

text \<open>
  C5, amended. Let the storage hold under the prefixed key nothing or an entry that
  \<open>set\<close> has written (a frozen entry), and let the key, on the in-memory storage, name
  no member that objects inherit. Then \<open>has\<close> answers true when the storage holds an
  entry under the prefixed key and false when it holds none, and no time enters the
  answer: for an entry with an expiration date \<open>t\<close>, at a time \<open>now\<close> after \<open>t\<close>, at
  which \<open>get\<close> answers \<open>undefined\<close>, \<open>has\<close> answers true.
\<close>

theorem has_reports_stored_entry:
  assumes "\<not> webStorage c \<longrightarrow> keyPrefix c @ key \<notin> set inherited_members"
    and "storage_holds (storage c) (keyPrefix c @ key) \<longrightarrow>
           (\<exists>v ex. freeze c (entry v ex) = Inr (storage_getItem (storage c) (keyPrefix c @ key)))"
  shows "(has c key = Inr True \<longleftrightarrow> storage_holds (storage c) (keyPrefix c @ key)) \<and>
         (has c key = Inr False \<longleftrightarrow> \<not> storage_holds (storage c) (keyPrefix c @ key)) \<and>
         (freeze c (entry v (VDate (Some t))) = Inr (storage_getItem (storage c) (keyPrefix c @ key)) \<and>
          t < now \<longrightarrow>
            storage_holds (storage c) (keyPrefix c @ key) \<and> has c key = Inr True \<and>
            fst (get c now key) = Inr VUndefined)"
proof -
  let ?k = "keyPrefix c @ key"
  have held: "has c key = Inr True" if "storage_holds (storage c) ?k"
  proof -
    from that assms(2) obtain v' ex where "freeze c (entry v' ex) = Inr (storage_getItem (storage c) ?k)"
      by blast
    then show ?thesis
      by (intro has_frozen [where e = "entry v' ex"]) (simp_all add: truthy_entry entry_not_undefined)
  qed
  have none: "has c key = Inr False" if n: "\<not> storage_holds (storage c) ?k"
  proof (cases "storage c")
    case (Memory m)
    then have "?k \<notin> set object_members"
      using assms(1) by (simp add: webStorage_def inherited_members_def)
    with n Memory have "\<not> truthy_stored (storage_getItem (storage c) ?k)"
      by (simp add: mem_getItem_def mem_lookup_def)
    then show ?thesis by (simp add: has_def fetch_value_def)
  next
    case (Web w)
    with n have "\<not> truthy_stored (storage_getItem (storage c) ?k)"
      by (simp add: web_getItem_def)
    then show ?thesis by (simp add: has_def fetch_value_def)
  qed
  have frozen_held: "storage_holds (storage c) ?k"
    if f: "freeze c (entry v (VDate (Some t))) = Inr (storage_getItem (storage c) ?k)"
  proof (rule ccontr)
    assume "\<not> storage_holds (storage c) ?k"
    then have "has c key = Inr False" by (rule none)
    moreover have "has c key = Inr True"
      using f by (intro has_frozen [where e = "entry v (VDate (Some t))"])
        (simp_all add: truthy_entry entry_not_undefined)
    ultimately show False by simp
  qed
  have expired: "fst (get c now key) = Inr VUndefined"
    if "freeze c (entry v (VDate (Some t))) = Inr (storage_getItem (storage c) ?k)" "t < now"
    using get_expiring [OF that(1) refl, of now] that(2) by simp
  from held none frozen_held expired show ?thesis
    by (cases "storage_holds (storage c) ?k") auto
qed


theorem has_reports_stored_entry_witness:
  "webStorage \<lparr>keyPrefix = ''p.'', storage = Web [(''p.a'',
        Encoded (node ''object'' (JObj [(''value'', node ''string'' (JStr ''v'')),
                                         (''expires'', node ''date'' (JStr ''1000''))])))]\<rparr> \<and>
   storage_holds (Web [(''p.a'',
        Encoded (node ''object'' (JObj [(''value'', node ''string'' (JStr ''v'')),
                                         (''expires'', node ''date'' (JStr ''1000''))])))]) ''p.a'' \<and>
   freeze \<lparr>keyPrefix = ''p.'', storage = Web [(''p.a'',
        Encoded (node ''object'' (JObj [(''value'', node ''string'' (JStr ''v'')),
                                         (''expires'', node ''date'' (JStr ''1000''))])))]\<rparr>
     (entry (VString ''v'') (VDate (Some 1000)))
     = Inr (storage_getItem (Web [(''p.a'',
        Encoded (node ''object'' (JObj [(''value'', node ''string'' (JStr ''v'')),
                                         (''expires'', node ''date'' (JStr ''1000''))])))]) ''p.a'') \<and>
   (1000 :: int) < 2000 \<and>
   has \<lparr>keyPrefix = ''p.'', storage = Web [(''p.a'',
        Encoded (node ''object'' (JObj [(''value'', node ''string'' (JStr ''v'')),
                                         (''expires'', node ''date'' (JStr ''1000''))])))]\<rparr> ''a''
     = Inr True \<and>
   fst (get \<lparr>keyPrefix = ''p.'', storage = Web [(''p.a'',
        Encoded (node ''object'' (JObj [(''value'', node ''string'' (JStr ''v'')),
                                         (''expires'', node ''date'' (JStr ''1000''))])))]\<rparr> 2000 ''a'')
     = Inr VUndefined \<and>
   \<not> storage_holds (Web [(''p.a'',
        Encoded (node ''object'' (JObj [(''value'', node ''string'' (JStr ''v'')),
                                         (''expires'', node ''date'' (JStr ''1000''))])))]) ''p.b'' \<and>
   has \<lparr>keyPrefix = ''p.'', storage = Web [(''p.a'',
        Encoded (node ''object'' (JObj [(''value'', node ''string'' (JStr ''v'')),
                                         (''expires'', node ''date'' (JStr ''1000''))])))]\<rparr> ''b''
     = Inr False"
proof -
  let ?j = "node ''object'' (JObj [(''value'', node ''string'' (JStr ''v'')),
                                   (''expires'', node ''date'' (JStr ''1000''))])"
  let ?c = "\<lparr>keyPrefix = ''p.'', storage = Web [(''p.a'', Encoded ?j)]\<rparr>"
  have s: "show_int 1000 = ''1000''"
    by code_simp
  have w: "webStorage ?c" by (simp add: webStorage_def)
  have g: "storage_getItem (storage ?c) (keyPrefix ?c @ ''a'') = Text (Encoded ?j)"
    by (simp add: web_getItem_def)
  have f: "freeze ?c (entry (VString ''v'') (VDate (Some 1000)))
      = Inr (storage_getItem (storage ?c) (keyPrefix ?c @ ''a''))"
    unfolding g by (simp add: freeze_def webStorage_def entry_def s max_time_def)
  have ha: "storage_holds (storage ?c) (keyPrefix ?c @ ''a'')" by simp
  have hb: "\<not> storage_holds (storage ?c) (keyPrefix ?c @ ''b'')" by simp
  have a1: "\<not> webStorage ?c \<longrightarrow> keyPrefix ?c @ ''a'' \<notin> set inherited_members"
    using w by simp
  have b1: "\<not> webStorage ?c \<longrightarrow> keyPrefix ?c @ ''b'' \<notin> set inherited_members"
    using w by simp
  have a2: "storage_holds (storage ?c) (keyPrefix ?c @ ''a'') \<longrightarrow>
      (\<exists>v ex. freeze ?c (entry v ex) = Inr (storage_getItem (storage ?c) (keyPrefix ?c @ ''a'')))"
    using f by blast
  have b2: "storage_holds (storage ?c) (keyPrefix ?c @ ''b'') \<longrightarrow>
      (\<exists>v ex. freeze ?c (entry v ex) = Inr (storage_getItem (storage ?c) (keyPrefix ?c @ ''b'')))"
    using hb by simp
  from has_reports_stored_entry [OF a1 a2, of "VString ''v''" 1000 2000]
    has_reports_stored_entry [OF b1 b2, of "VString ''v''" 1000 2000]
    w f ha hb
  show ?thesis by simp
qed

section \<open>Writing and reading back\<close>

lemma webStorage_remove [simp]: "webStorage (remove c k) = webStorage c"
  by (cases "storage c") (simp_all add: remove_def webStorage_def)

lemma keyPrefix_remove [simp]: "keyPrefix (remove c k) = keyPrefix c"
  by (simp add: remove_def)

lemma freeze_kind: "webStorage c' = webStorage c \<Longrightarrow> freeze c' v = freeze c v"
  by (simp add: freeze_def)

lemma storable_date_add_milli: "storable (VDate (date_add_milli now n))"
  by (auto simp: date_add_milli_def truncate_rat_def split: option.splits if_splits)

lemma storable_expiration:
  "storable expires \<Longrightarrow> storable (expiration now expires)"
  using storable_date_add_milli [of now]
  by (cases expires) (auto simp: expiration_def split: number.splits)

lemma storage_setItem_kind:
  "storage_setItem b k x = Inr b' \<Longrightarrow>
   (case b' of Web w \<Rightarrow> True | Memory m \<Rightarrow> False) = (case b of Web w \<Rightarrow> True | Memory m \<Rightarrow> False)"
  by (cases b; cases x) auto

lemma storage_setItem_getItem:
  "storage_setItem b k x = Inr b' \<Longrightarrow> storage_getItem b' k = x"
  by (cases b; cases x)
     (auto simp: mem_getItem_def mem_setItem_def mem_lookup_def Let_def web_getItem_def
        map_of_web_setItem)

text \<open>
  A call of \<open>set\<close> that returns has returned the value and left the frozen entry under
  the prefixed key.
\<close>

lemma set_item_returned:
  assumes "set_item c now key v expires = (Inr r, c')"
  shows "\<exists>k. key = VString k \<and> r = v \<and>
           webStorage c' = webStorage c \<and> keyPrefix c' = keyPrefix c \<and>
           freeze c' (entry v (expiration now expires))
             = Inr (storage_getItem (storage c') (keyPrefix c' @ k))"
proof (cases key)
  case (VString k)
  let ?e = "entry v (expiration now expires)"
  from assms VString obtain x b where
    f: "freeze (remove c k) ?e = Inr x"
    and b: "storage_setItem (storage (remove c k)) (keyPrefix c @ k) x = Inr b"
    and c': "c' = (remove c k)\<lparr>storage := b\<rparr>" and r: "r = v"
    by (auto simp: set_item_def Let_def split: if_splits sum.splits)
  from storage_setItem_kind [OF b] c' have k: "webStorage c' = webStorage c"
    using webStorage_remove [of c k] by (simp add: webStorage_def)
  have "freeze c' ?e = Inr x"
    using f k by (simp add: freeze_kind [of c' "remove c k"])
  moreover have "storage_getItem (storage c') (keyPrefix c' @ k) = x"
    using storage_setItem_getItem [OF b] c' by simp
  ultimately show ?thesis using VString r k c' by simp
qed (use assms in \<open>auto simp: set_item_def\<close>)

text \<open>
  A call of \<open>set\<close> whose arguments pass the four checks returns when the value is
  storable (or the storage is the memory storage, which takes any value).
\<close>

lemma set_item_returns:
  assumes "k \<noteq> []" "v \<noteq> VUndefined" "get_value_type v \<notin> set unsupported_types"
    and "expires = VUndefined \<or> isNumber expires \<or> isDate expires"
    and "webStorage c \<longrightarrow> storable v \<and> storable expires"
  shows "\<exists>c'. set_item c now (VString k) v expires = (Inr v, c')"
proof (cases "storage c")
  case (Memory m)
  then have nw: "\<not> webStorage c" by (simp add: webStorage_def)
  obtain m' where m': "storage (remove c k) = Memory m'"
    using Memory by (simp add: remove_def)
  show ?thesis
    using assms(1-4) nw m' by (auto simp: set_item_def freeze_def)
next
  case (Web w)
  then have iw: "webStorage c" by (simp add: webStorage_def)
  obtain w' where w': "storage (remove c k) = Web w'"
    using Web by (simp add: remove_def)
  let ?e = "entry v (expiration now expires)"
  have "storable ?e"
    using assms(5) iw by (simp add: storable_entry storable_expiration)
  from serialize_roundtrip [OF this] obtain j where "serialize ?e = Inr j" by blast
  then have f: "freeze (remove c k) ?e = Inr (Text (Encoded j))"
    using iw by (simp add: freeze_def serialize_def del: serialize_value.simps)
  show ?thesis
    using assms(1-4) f w' by (auto simp: set_item_def)
qed

lemma set_item_steps:
  assumes "set_item c now (VString k) v expires = (Inr r, c')"
  shows "\<exists>x. freeze (remove c k) (entry v (expiration now expires)) = Inr x \<and>
             storage_setItem (storage (remove c k)) (keyPrefix c @ k) x = Inr (storage c') \<and>
             keyPrefix c' = keyPrefix c"
  using assms by (auto simp: set_item_def Let_def split: if_splits sum.splits)

lemma storage_setItem_holds: "storage_setItem b k x = Inr b' \<Longrightarrow> storage_holds b' k"
  by (cases b; cases x) (auto simp: mem_setItem_def Let_def map_of_web_setItem)

lemma web_setItem_absent: "map_of w k = None \<Longrightarrow> web_setItem w k t = w @ [(k, t)]"
  by (induction w) (auto split: if_splits)

lemma storage_setItem_web:
  "storage_setItem (Web w) k x = Inr b \<Longrightarrow> \<exists>t. x = Text t \<and> b = Web (web_setItem w k t)"
  by (cases x) auto

text \<open>
  C6. Let \<open>set(k, v1, ttl)\<close> and then, at whatever time, \<open>set(k, v2)\<close> without an
  expiration have returned. After the first call the storage holds under the prefixed
  key the frozen entry of \<open>v1\<close> with an expiration date. The second call removes that
  entry first (the storage holds nothing under the key after its \<open>remove\<close>) and stores
  the new item into the storage so emptied: in a web storage the key goes to the end of
  the enumeration. What the storage then holds under the key is the frozen entry of
  \<open>v2\<close> whose \<open>expires\<close> is \<open>undefined\<close>, and \<open>get(k)\<close> returns \<open>v2\<close> at every time
  \<open>now3\<close> and removes nothing.
\<close>

theorem overwrite_clears_expiration:
  assumes "set_item c now1 (VString k) v1 (VNumber (Finite ttl)) = (Inr r1, c1)"
    and "set_item c1 now2 (VString k) v2 VUndefined = (Inr r2, c2)"
  shows "(\<exists>d. freeze c1 (entry v1 (VDate d))
              = Inr (storage_getItem (storage c1) (keyPrefix c1 @ k))) \<and>
         storage_holds (storage c1) (keyPrefix c1 @ k) \<and>
         \<not> storage_holds (storage (remove c1 k)) (keyPrefix c1 @ k) \<and>
         (\<exists>x. freeze c2 (entry v2 VUndefined) = Inr x \<and>
              storage_setItem (storage (remove c1 k)) (keyPrefix c1 @ k) x = Inr (storage c2)) \<and>
         (\<forall>w. storage c1 = Web w \<longrightarrow>
              (\<exists>t. storage c2 = Web (web_removeItem w (keyPrefix c1 @ k) @ [(keyPrefix c1 @ k, t)]))) \<and>
         r2 = v2 \<and> keyPrefix c2 = keyPrefix c1 \<and>
         freeze c2 (entry v2 VUndefined) = Inr (storage_getItem (storage c2) (keyPrefix c2 @ k)) \<and>
         get c2 now3 k = (Inr v2, c2)"
proof -
  let ?pk = "keyPrefix c1 @ k"
  have e1: "expiration now1 (VNumber (Finite ttl)) = VDate (date_add_milli now1 ttl)"
    by (simp add: expiration_def)
  have e2: "expiration now2 VUndefined = VUndefined" by (simp add: expiration_def)
  from set_item_returned [OF assms(1)] e1
  have f1: "freeze c1 (entry v1 (VDate (date_add_milli now1 ttl)))
      = Inr (storage_getItem (storage c1) ?pk)"
    by auto
  from set_item_steps [OF assms(1)] obtain x1 where
    "storage_setItem (storage (remove c k)) (keyPrefix c @ k) x1 = Inr (storage c1)"
    "keyPrefix c1 = keyPrefix c"
    by auto
  then have h1: "storage_holds (storage c1) ?pk"
    using storage_setItem_holds by force
  have gone: "\<not> storage_holds (storage (remove c1 k)) ?pk"
    using removed_is_gone [OF f1 refl] .
  from set_item_steps [OF assms(2)] e2 obtain x2 where
    x2: "freeze (remove c1 k) (entry v2 VUndefined) = Inr x2"
    "storage_setItem (storage (remove c1 k)) ?pk x2 = Inr (storage c2)"
    and p: "keyPrefix c2 = keyPrefix c1"
    by auto
  from set_item_returned [OF assms(2)] e2
  have r: "r2 = v2" and k2: "webStorage c2 = webStorage c1"
    and f2: "freeze c2 (entry v2 VUndefined) = Inr (storage_getItem (storage c2) (keyPrefix c2 @ k))"
    by auto
  have "freeze c2 (entry v2 VUndefined) = Inr x2"
    using x2(1) k2 by (simp add: freeze_kind [of c2 "remove c1 k"])
  with x2(2) have step: "\<exists>x. freeze c2 (entry v2 VUndefined) = Inr x \<and>
      storage_setItem (storage (remove c1 k)) ?pk x = Inr (storage c2)"
    by blast
  have web: "\<exists>t. storage c2 = Web (web_removeItem w ?pk @ [(?pk, t)])" if w: "storage c1 = Web w" for w
  proof -
    have rw: "storage (remove c1 k) = Web (web_removeItem w ?pk)"
      using w by (simp add: remove_def)
    from x2(2) rw obtain t where t: "storage c2 = Web (web_setItem (web_removeItem w ?pk) ?pk t)"
      using storage_setItem_web [of "web_removeItem w ?pk" ?pk x2 "storage c2"] by auto
    have "map_of (web_removeItem w ?pk) ?pk = None"
      by (simp add: map_of_web_removeItem)
    from web_setItem_absent [OF this] t show ?thesis by auto
  qed
  from get_persistent [OF f2 refl] have g: "get c2 now3 k = (Inr v2, c2)" .
  from f1 h1 gone step web r p f2 g show ?thesis by blast
qed


theorem overwrite_clears_expiration_witness:
  "set_item \<lparr>keyPrefix = ''p.'', storage = Web [(''p.a'', Plain ''z''), (''p.b'', Plain ''w'')]\<rparr>
       0 (VString ''a'') (VString ''x'') (VNumber (Finite 100))
     = (Inr (VString ''x''),
        \<lparr>keyPrefix = ''p.'', storage = Web [(''p.b'', Plain ''w''), (''p.a'',
           Encoded (node ''object'' (JObj [(''value'', node ''string'' (JStr ''x'')),
                                            (''expires'', node ''date'' (JStr ''100''))])))]\<rparr>) \<and>
   set_item \<lparr>keyPrefix = ''p.'', storage = Web [(''p.b'', Plain ''w''), (''p.a'',
           Encoded (node ''object'' (JObj [(''value'', node ''string'' (JStr ''x'')),
                                            (''expires'', node ''date'' (JStr ''100''))])))]\<rparr>
       50 (VString ''a'') (VString ''y'') VUndefined
     = (Inr (VString ''y''),
        \<lparr>keyPrefix = ''p.'', storage = Web [(''p.b'', Plain ''w''), (''p.a'',
           Encoded (node ''object'' (JObj [(''value'', node ''string'' (JStr ''y'')),
                                            (''expires'', JObj [(''type'', JStr ''undefined'')])])))]\<rparr>) \<and>
   storage_holds (Web [(''p.b'', Plain ''w''), (''p.a'',
           Encoded (node ''object'' (JObj [(''value'', node ''string'' (JStr ''x'')),
                                            (''expires'', node ''date'' (JStr ''100''))])))]) ''p.a'' \<and>
   \<not> storage_holds (storage (remove \<lparr>keyPrefix = ''p.'', storage = Web [(''p.b'', Plain ''w''), (''p.a'',
           Encoded (node ''object'' (JObj [(''value'', node ''string'' (JStr ''x'')),
                                            (''expires'', node ''date'' (JStr ''100''))])))]\<rparr> ''a'')) ''p.a'' \<and>
   get \<lparr>keyPrefix = ''p.'', storage = Web [(''p.b'', Plain ''w''), (''p.a'',
           Encoded (node ''object'' (JObj [(''value'', node ''string'' (JStr ''y'')),
                                            (''expires'', JObj [(''type'', JStr ''undefined'')])])))]\<rparr>
       150 ''a''
     = (Inr (VString ''y''),
        \<lparr>keyPrefix = ''p.'', storage = Web [(''p.b'', Plain ''w''), (''p.a'',
           Encoded (node ''object'' (JObj [(''value'', node ''string'' (JStr ''y'')),
                                            (''expires'', JObj [(''type'', JStr ''undefined'')])])))]\<rparr>)"
proof -
  let ?c = "\<lparr>keyPrefix = ''p.'', storage = Web [(''p.a'', Plain ''z''), (''p.b'', Plain ''w'')]\<rparr>"
  let ?c1 = "\<lparr>keyPrefix = ''p.'', storage = Web [(''p.b'', Plain ''w''), (''p.a'',
           Encoded (node ''object'' (JObj [(''value'', node ''string'' (JStr ''x'')),
                                            (''expires'', node ''date'' (JStr ''100''))])))]\<rparr>"
  let ?c2 = "\<lparr>keyPrefix = ''p.'', storage = Web [(''p.b'', Plain ''w''), (''p.a'',
           Encoded (node ''object'' (JObj [(''value'', node ''string'' (JStr ''y'')),
                                            (''expires'', JObj [(''type'', JStr ''undefined'')])])))]\<rparr>"
  have s: "show_int 100 = ''100''" by code_simp
  have d: "date_add_milli 0 100 = Some 100"
    by (simp add: date_add_milli_def truncate_rat_def max_time_def)
  have h5: "set_item ?c 0 (VString ''a'') (VString ''x'') (VNumber (Finite 100)) = (Inr (VString ''x''), ?c1)"
    by (simp add: set_item_def unsupported_types_def remove_def web_removeItem_def freeze_def
        webStorage_def entry_def expiration_def d s serialize_undefined_def max_time_def)
  have h6: "set_item ?c1 50 (VString ''a'') (VString ''y'') VUndefined = (Inr (VString ''y''), ?c2)"
    by (simp add: set_item_def unsupported_types_def remove_def web_removeItem_def freeze_def
        webStorage_def entry_def expiration_def serialize_undefined_def)
  from overwrite_clears_expiration [OF h5 h6, of 150]
  have "storage_holds (storage ?c1) (keyPrefix ?c1 @ ''a'')"
    and "\<not> storage_holds (storage (remove ?c1 ''a'')) (keyPrefix ?c1 @ ''a'')"
    and "get ?c2 150 ''a'' = (Inr (VString ''y''), ?c2)"
    by blast+
  with h5 h6 show ?thesis by simp
qed

text \<open>
  With a non-empty string as key, \<open>set(key, undefined)\<close> raises the error for an
  undefined value and leaves the cache as it was. A storable array or object, which
  may hold \<open>undefined\<close> at any place below the top, is stored, and a later \<open>get\<close>
  returns the same structure, \<open>undefined\<close> at the same places.
\<close>

lemma undefined_rejected_on_top_kept_below:
  "(k \<noteq> [] \<longrightarrow> set_item c now (VString k) VUndefined expires = (Inl InvalidValue, c)) \<and>
   (k \<noteq> [] \<and> (v = VArray xs \<or> v = VObject ms) \<and> (webStorage c \<longrightarrow> storable v) \<longrightarrow>
      (\<exists>c'. set_item c now (VString k) v VUndefined = (Inr v, c') \<and>
            get c' now' k = (Inr v, c')))"
proof (intro conjI impI)
  assume "k \<noteq> []"
  then show "set_item c now (VString k) VUndefined expires = (Inl InvalidValue, c)"
    by (simp add: set_item_def)
next
  assume a: "k \<noteq> [] \<and> (v = VArray xs \<or> v = VObject ms) \<and> (webStorage c \<longrightarrow> storable v)"
  then have v: "v \<noteq> VUndefined" "get_value_type v \<notin> set unsupported_types"
    by (auto simp: unsupported_types_def)
  from a have s: "webStorage c \<longrightarrow> storable v \<and> storable VUndefined" by simp
  from a have k: "k \<noteq> []" by simp
  from set_item_returns [OF k v _ s, where now = now]
  obtain c' where c': "set_item c now (VString k) v VUndefined = (Inr v, c')"
    by auto
  have e: "expiration now VUndefined = VUndefined" by (simp add: expiration_def)
  from set_item_returned [OF c'] e
  have "freeze c' (entry v VUndefined) = Inr (storage_getItem (storage c') (keyPrefix c' @ k))"
    by auto
  from get_persistent [OF this refl] c'
  show "\<exists>c'. set_item c now (VString k) v VUndefined = (Inr v, c') \<and>
            get c' now' k = (Inr v, c')" by blast
qed

text \<open>
  C9. The first half of the claim holds, and so does the second for the storable
  arrays and objects (\<open>undefined_rejected_on_top_kept_below\<close>). It fails on an object
  whose member \<open>hasOwnProperty\<close> is \<open>undefined\<close>: \<open>_serialize_object\<close> calls that member,
  and \<open>set\<close> on a web storage ends in a \<open>TypeError\<close> after the entry that was under the
  key has been removed.
\<close>

theorem set_object_with_undefined_hasOwnProperty_fails:
  "set_item \<lparr>keyPrefix = ''p.'', storage = Web [(''p.k'',
        Encoded (node ''object'' (JObj [(''value'', node ''string'' (JStr ''old'')),
                                         (''expires'', JObj [(''type'', JStr ''undefined'')])])))]\<rparr>
     0 (VString ''k'') (VObject [(''hasOwnProperty'', VUndefined)]) VUndefined
   = (Inl TypeError, \<lparr>keyPrefix = ''p.'', storage = Web []\<rparr>)"
  by (simp add: set_item_def unsupported_types_def remove_def web_removeItem_def freeze_def
      webStorage_def entry_def expiration_def)

text \<open>
  C8. \<open>_serialize_number\<close> gives NaN and the two infinities the payloads \<open>"NaN"\<close>,
  \<open>"Infinity"\<close> and \<open>"-Infinity"\<close>, strings, and a finite number the number itself,
  all under the tag \<open>number\<close>. \<open>_deserialize_number\<close> maps the three strings to the
  three numbers, a numeric payload to that number, and any payload to the number it
  converts to.
\<close>

theorem number_wire_format:
  "serialize_number (VNumber NaN) = Inr (node ''number'' (JStr ''NaN'')) \<and>
   serialize_number (VNumber PosInfinity) = Inr (node ''number'' (JStr ''Infinity'')) \<and>
   serialize_number (VNumber NegInfinity) = Inr (node ''number'' (JStr ''-Infinity'')) \<and>
   serialize_number (VNumber (Finite r)) = Inr (node ''number'' (JNum r)) \<and>
   deserialize_number (Some (JStr ''NaN'')) = Inr (VNumber NaN) \<and>
   deserialize_number (Some (JStr ''Infinity'')) = Inr (VNumber PosInfinity) \<and>
   deserialize_number (Some (JStr ''-Infinity'')) = Inr (VNumber NegInfinity) \<and>
   deserialize_number (Some (JNum r)) = Inr (VNumber (Finite r)) \<and>
   (p \<notin> {Some (JStr ''NaN''), Some (JStr ''Infinity''), Some (JStr ''-Infinity'')} \<longrightarrow>
      deserialize_number p =
        (case to_number p of Some n \<Rightarrow> Inr (VNumber n) | None \<Rightarrow> Inl OutsideModel))"
  by (simp add: deserialize_number_def)

theorem number_wire_format_witness:
  "Some (JStr ''42'') \<notin> {Some (JStr ''NaN''), Some (JStr ''Infinity''), Some (JStr ''-Infinity'')} \<and>
   serialize_number (VNumber (Finite (1 / 4))) = Inr (node ''number'' (JNum (1 / 4))) \<and>
   deserialize_number (Some (JNum (1 / 4))) = Inr (VNumber (Finite (1 / 4))) \<and>
   deserialize_number (Some (JStr ''42'')) = Inr (VNumber (Finite 42))"
proof -
  have "to_number (Some (JStr ''42'')) = Some (Finite 42)"
    by (simp add: string_to_number_def not_numeric_def digit_val_def read_nat_def max_safe_def)
  with number_wire_format [of "1 / 4" "Some (JStr ''42'')"] show ?thesis
    by simp
qed

section \<open>The in-memory storage under sequences of calls\<close>

datatype storage_call = SetItem string jsval | RemoveItem string | Clear

fun mem_call :: "memory_storage \<Rightarrow> storage_call \<Rightarrow> memory_storage" where
  "mem_call m (SetItem k v) = mem_setItem m k v"
| "mem_call m (RemoveItem k) = mem_removeItem m k"
| "mem_call m Clear = mem_clear m"

definition mem_run :: "memory_storage \<Rightarrow> storage_call list \<Rightarrow> memory_storage" where
  "mem_run m calls = foldl mem_call m calls"

text \<open>
  A call is plain when its key names no member that objects inherit and the value it
  stores is truthy.
\<close>

fun plain_call :: "storage_call \<Rightarrow> bool" where
  "plain_call (SetItem k v) = (k \<notin> set inherited_members \<and> truthy v)"
| "plain_call (RemoveItem k) = (k \<notin> set inherited_members)"
| "plain_call Clear = True"

text \<open>
  The three parts of the invariant: \<open>length\<close> is the number of stored keys, \<open>keys\<close>
  holds each stored key once and nothing else, and \<open>key(i)\<close> for \<open>i\<close> below \<open>length\<close>
  runs through the stored keys.
\<close>

definition mem_consistent :: "memory_storage \<Rightarrow> bool" where
  "mem_consistent m \<longleftrightarrow>
     mem_length m = int (card (dom (mem_items m))) \<and>
     distinct (mem_keys m) \<and> set (mem_keys m) = dom (mem_items m) \<and>
     mem_key m ` {i. int i < mem_length m} = Some ` dom (mem_items m)"

text \<open>The invariant that plain calls keep.\<close>

definition mem_inv :: "memory_storage \<Rightarrow> bool" where
  "mem_inv m \<longleftrightarrow>
     mem_length m = int (length (mem_keys m)) \<and>
     distinct (mem_keys m) \<and> set (mem_keys m) = dom (mem_items m) \<and>
     (\<forall>k v. mem_items m k = Some v \<longrightarrow> truthy v)"

lemma mem_inv_empty: "mem_inv mem_empty"
  by (simp add: mem_inv_def mem_empty_def)

lemma not_inherited: "k \<notin> set inherited_members \<Longrightarrow> k \<notin> set object_members"
  by (simp add: inherited_members_def)

lemma mem_inv_present:
  "mem_inv m \<Longrightarrow> k \<notin> set inherited_members \<Longrightarrow>
   truthy (mem_lookup m k) \<longleftrightarrow> k \<in> dom (mem_items m)"
  by (auto simp: mem_inv_def mem_lookup_def not_inherited split: option.splits)

lemma mem_inv_setItem:
  assumes "mem_inv m" "truthy v" "k \<notin> set inherited_members"
  shows "mem_inv (mem_setItem m k v)"
proof (cases "k \<in> dom (mem_items m)")
  case True
  then have "truthy (mem_lookup m k)" using mem_inv_present [OF assms(1,3)] by simp
  then show ?thesis
    using assms True by (auto simp: mem_inv_def mem_setItem_def)
next
  case False
  then have "\<not> truthy (mem_lookup m k)" using mem_inv_present [OF assms(1,3)] by simp
  then show ?thesis
    using assms False by (auto simp: mem_inv_def mem_setItem_def Let_def)
qed

lemma mem_inv_removeItem:
  assumes "mem_inv m" "k \<notin> set inherited_members"
  shows "mem_inv (mem_removeItem m k)"
proof (cases "k \<in> dom (mem_items m)")
  case True
  then have t: "truthy (mem_lookup m k)" using mem_inv_present [OF assms] by simp
  from True assms have k: "k \<in> set (mem_keys m)" by (simp add: mem_inv_def)
  then have p: "length (mem_keys m) > 0" by (cases "mem_keys m") auto
  have "length (remove1 k (mem_keys m)) = length (mem_keys m) - 1"
    using k by (simp add: length_remove1)
  with p have "int (length (remove1 k (mem_keys m))) = int (length (mem_keys m)) - 1"
    by linarith
  then show ?thesis
    using assms t by (auto simp: mem_inv_def mem_removeItem_def split: if_splits)
next
  case False
  then have "\<not> truthy (mem_lookup m k)" using mem_inv_present [OF assms] by simp
  then show ?thesis using assms by (simp add: mem_removeItem_def)
qed

lemma mem_inv_clear: "mem_inv (mem_clear m)"
  by (simp add: mem_inv_def mem_clear_def)

lemma mem_inv_call: "mem_inv m \<Longrightarrow> plain_call c \<Longrightarrow> mem_inv (mem_call m c)"
  by (cases c) (simp_all add: mem_inv_setItem mem_inv_removeItem mem_inv_clear)

lemma mem_inv_run: "mem_inv m \<Longrightarrow> list_all plain_call calls \<Longrightarrow> mem_inv (mem_run m calls)"
  unfolding mem_run_def
  by (induction calls arbitrary: m) (simp_all add: mem_inv_call)

lemma mem_inv_consistent:
  assumes "mem_inv m"
  shows "mem_consistent m"
proof -
  from assms have l: "mem_length m = int (length (mem_keys m))"
    and d: "distinct (mem_keys m)" and s: "set (mem_keys m) = dom (mem_items m)"
    by (simp_all add: mem_inv_def)
  have c: "card (dom (mem_items m)) = length (mem_keys m)"
    using d s by (metis distinct_card)
  have "mem_key m ` {i. int i < mem_length m} = Some ` set (mem_keys m)"
    unfolding l by (auto simp: mem_key_def set_conv_nth image_iff)
  with l d s c show ?thesis by (simp add: mem_consistent_def)
qed

text \<open>
  C10, as stated, fails. A value that is not truthy (here the empty string) is stored
  but not seen by the test \<open>!me.items[key]\<close>, so storing it twice under one key enters
  the key twice and counts it twice. A key that names a function every object inherits
  (here \<open>toString\<close>) is seen by that test before anything is stored under it, so the
  first \<open>setItem\<close> stores the value and enters no key.
\<close>

theorem memory_storage_counterexample:
  "\<not> mem_consistent (mem_run mem_empty [SetItem ''k'' (VString []), SetItem ''k'' (VString [])]) \<and>
   \<not> mem_consistent (mem_run mem_empty [SetItem ''toString'' (VString ''x'')])"
  by (simp add: mem_consistent_def mem_run_def mem_empty_def mem_setItem_def mem_lookup_def
      object_members_def)

text \<open>
  C10, amended. From the empty storage, after every sequence of \<open>setItem\<close>,
  \<open>removeItem\<close> and \<open>clear\<close> calls that store truthy values only (as the entries
  written by the cache are) under keys that name no inherited member, \<open>length\<close> is the
  number of stored keys, \<open>keys\<close> holds each stored key once and nothing else, and
  \<open>key(i)\<close> for \<open>i\<close> below \<open>length\<close> runs through the stored keys. In such a state,
  \<open>setItem\<close> on a present key replaces the value and changes neither \<open>keys\<close> nor
  \<open>length\<close>, \<open>removeItem\<close> on an absent key changes nothing, and \<open>clear\<close> empties all
  three fields.
\<close>

theorem memory_storage_invariant:
  assumes "list_all plain_call calls"
    and "m = mem_run mem_empty calls"
    and "k \<notin> set inherited_members"
  shows "mem_consistent m \<and>
         (k \<in> dom (mem_items m) \<longrightarrow>
            mem_length (mem_setItem m k v) = mem_length m \<and>
            mem_keys (mem_setItem m k v) = mem_keys m \<and>
            mem_items (mem_setItem m k v) = (mem_items m)(k \<mapsto> v)) \<and>
         (k \<notin> dom (mem_items m) \<longrightarrow> mem_removeItem m k = m) \<and>
         mem_items (mem_clear m) = Map.empty \<and> mem_keys (mem_clear m) = [] \<and>
         mem_length (mem_clear m) = 0"
proof -
  have i: "mem_inv m"
    unfolding assms(2) using mem_inv_empty assms(1) by (rule mem_inv_run)
  have "mem_consistent m" using i by (rule mem_inv_consistent)
  moreover have "k \<in> dom (mem_items m) \<longrightarrow>
            mem_length (mem_setItem m k v) = mem_length m \<and>
            mem_keys (mem_setItem m k v) = mem_keys m \<and>
            mem_items (mem_setItem m k v) = (mem_items m)(k \<mapsto> v)"
    using mem_inv_present [OF i assms(3)] by (simp add: mem_setItem_def)
  moreover have "k \<notin> dom (mem_items m) \<longrightarrow> mem_removeItem m k = m"
    using mem_inv_present [OF i assms(3)] by (simp add: mem_removeItem_def)
  ultimately show ?thesis by (simp add: mem_clear_def)
qed

theorem memory_storage_invariant_witness:
  "list_all plain_call
     [SetItem ''a'' (VString ''x''), SetItem ''a'' (VNumber (Finite 1)), RemoveItem ''b'',
      SetItem ''b'' (VBoolean True), RemoveItem ''a''] \<and>
   ''c'' \<notin> set inherited_members \<and>
   mem_consistent (mem_run mem_empty
     [SetItem ''a'' (VString ''x''), SetItem ''a'' (VNumber (Finite 1)), RemoveItem ''b'',
      SetItem ''b'' (VBoolean True), RemoveItem ''a'']) \<and>
   mem_keys (mem_run mem_empty
     [SetItem ''a'' (VString ''x''), SetItem ''a'' (VNumber (Finite 1)), RemoveItem ''b'',
      SetItem ''b'' (VBoolean True), RemoveItem ''a'']) = [''b''] \<and>
   mem_length (mem_run mem_empty
     [SetItem ''a'' (VString ''x''), SetItem ''a'' (VNumber (Finite 1)), RemoveItem ''b'',
      SetItem ''b'' (VBoolean True), RemoveItem ''a'']) = 1"
proof -
  let ?calls = "[SetItem ''a'' (VString ''x''), SetItem ''a'' (VNumber (Finite 1)), RemoveItem ''b'',
      SetItem ''b'' (VBoolean True), RemoveItem ''a'']"
  have h: "list_all plain_call ?calls"
    by (simp add: inherited_members_def object_members_def)
  have n: "''c'' \<notin> set inherited_members"
    by (simp add: inherited_members_def object_members_def)
  have k: "mem_keys (mem_run mem_empty ?calls) = [''b'']"
    by (simp add: mem_run_def mem_empty_def mem_setItem_def mem_removeItem_def mem_lookup_def
        object_members_def)
  have l: "mem_length (mem_run mem_empty ?calls) = 1"
    by (simp add: mem_run_def mem_empty_def mem_setItem_def mem_removeItem_def mem_lookup_def
        object_members_def)
  from memory_storage_invariant [OF h refl n] h n k l show ?thesis by simp
qed

section \<open>Validation, nested nodes and the namespace\<close>

subsection \<open>The checks of \<open>set\<close> come before the storage is touched\<close>

text \<open>The errors with which the serializer can end.\<close>

definition serializer_error :: "error \<Rightarrow> bool" where
  "serializer_error e \<longleftrightarrow> e = OutsideModel \<or> e = TypeError \<or> (\<exists>t. e = InvalidValueType t)"

lemma array_loop_error:
  assumes "\<And>x e. x \<in> set xs \<Longrightarrow> serialize x = Inl e \<Longrightarrow> serializer_error e"
    and "serialize_array_loop xs = Inl e"
  shows "serializer_error e"
  using assms
proof (induction xs)
  case Nil
  then show ?case by simp
next
  case (Cons x xs)
  from Cons.prems(2) consider "serialize x = Inl e" | "serialize_array_loop xs = Inl e"
    by (auto simp: serialize_def split: sum.splits simp del: serialize_value.simps)
  then show ?case
  proof cases
    case 1
    then show ?thesis using Cons.prems(1) [of x e] by simp
  next
    case 2
    show ?thesis
    proof (rule Cons.IH [OF _ 2])
      fix y e'
      assume "y \<in> set xs" "serialize y = Inl e'"
      then show "serializer_error e'" using Cons.prems(1) [of y e'] by simp
    qed
  qed
qed

lemma object_loop_error:
  assumes "\<And>k x e. (k, x) \<in> set ms \<Longrightarrow> serialize x = Inl e \<Longrightarrow> serializer_error e"
    and "serialize_object_loop ms = Inl e"
  shows "serializer_error e"
  using assms
proof (induction ms)
  case Nil
  then show ?case by simp
next
  case (Cons m ms)
  obtain k x where m: "m = (k, x)" by (cases m)
  from Cons.prems(2) m consider "serialize x = Inl e" | "serialize_object_loop ms = Inl e"
    by (auto simp: serialize_def split: sum.splits simp del: serialize_value.simps)
  then show ?case
  proof cases
    case 1
    then show ?thesis using Cons.prems(1) [of k x e] m by simp
  next
    case 2
    show ?thesis
    proof (rule Cons.IH [OF _ 2])
      fix k' y e'
      assume "(k', y) \<in> set ms" "serialize y = Inl e'"
      then show "serializer_error e'" using Cons.prems(1) [of k' y e'] by simp
    qed
  qed
qed

lemma serialize_error: "serialize v = Inl e \<Longrightarrow> serializer_error e"
proof (induction v arbitrary: e)
  case (VNumber n)
  then show ?case
    by (cases n) (simp_all add: serialize_def serializer_error_def)
next
  case (VDate d)
  then show ?case
    by (auto simp: serialize_def serializer_error_def split: if_splits option.splits)
next
  case (VArray xs)
  from VArray.prems have l: "serialize_array_loop xs = Inl e"
    by (simp add: serialize_def split: sum.splits)
  show ?case
  proof (rule array_loop_error [OF _ l])
    fix x e'
    assume "x \<in> set xs" "serialize x = Inl e'"
    then show "serializer_error e'" using VArray.IH [of x e'] by simp
  qed
next
  case (VObject ms)
  show ?case
  proof (cases "map_of ms ''hasOwnProperty''")
    case (Some x)
    with VObject.prems show ?thesis
      by (auto simp: serialize_def serializer_error_def split: if_splits)
  next
    case None
    show ?thesis
    proof (cases "''__proto__'' \<in> fst ` set ms")
      case True
      with None VObject.prems show ?thesis
        by (simp add: serialize_def serializer_error_def)
    next
      case False
      with None VObject.prems have l: "serialize_object_loop ms = Inl e"
        by (simp add: serialize_def split: sum.splits)
      show ?thesis
      proof (rule object_loop_error [OF _ l])
        fix k x e'
        assume "(k, x) \<in> set ms" "serialize x = Inl e'"
        then show "serializer_error e'" using VObject.IH [of "(k, x)" x e'] by simp
      qed
    qed
  qed
qed (simp_all add: serialize_def serializer_error_def)

lemma set_item_checks_first:
  assumes "set_item c now key v expires = (Inl e, c')"
    and "e \<in> {InvalidKey, InvalidValue, InvalidExpiration} \<or> (\<exists>t. e = UnsupportedType t)"
  shows "c' = c"
proof (cases key)
  case (VString k)
  let ?c1 = "remove c k"
  let ?e = "entry v (expiration now expires)"
  have ne: "\<not> serializer_error e"
    using assms(2) by (auto simp: serializer_error_def)
  show ?thesis
  proof (cases "k = [] \<or> v = VUndefined \<or> get_value_type v \<in> set unsupported_types \<or>
      (expires \<noteq> VUndefined \<and> \<not> isNumber expires \<and> \<not> isDate expires)")
    case True
    with assms(1) VString show ?thesis
      by (auto simp: set_item_def split: if_splits)
  next
    case False
    then have s: "set_item c now key v expires =
        (case freeze ?c1 ?e of
           Inl e \<Rightarrow> (Inl e, ?c1)
         | Inr frozen \<Rightarrow>
             (case storage_setItem (storage ?c1) (keyPrefix ?c1 @ k) frozen of
                Inl e \<Rightarrow> (Inl e, ?c1)
              | Inr b \<Rightarrow> (Inr v, ?c1\<lparr>storage := b\<rparr>)))"
      using VString by (auto simp: set_item_def Let_def)
    show ?thesis
    proof (cases "freeze ?c1 ?e")
      case (Inl e1)
      with s assms(1) have "e1 = e" by simp
      moreover from Inl have "serializer_error e1"
        using serialize_error [of ?e e1]
        by (auto simp: freeze_def serialize_def split: if_splits sum.splits
            simp del: serialize_value.simps)
      ultimately show ?thesis using ne by simp
    next
      case (Inr frozen)
      show ?thesis
      proof (cases "storage_setItem (storage ?c1) (keyPrefix ?c1 @ k) frozen")
        case (Inl e2)
        then have "e2 = OutsideModel"
          by (cases "storage ?c1"; cases frozen) auto
        moreover from s Inr Inl assms(1) have "e2 = e" by simp
        ultimately show ?thesis using ne by (simp add: serializer_error_def)
      next
        case (Inr b)
        with s \<open>freeze ?c1 ?e = Inr frozen\<close> assms(1) show ?thesis by simp
      qed
    qed
  qed
qed (use assms in \<open>auto simp: set_item_def\<close>)

subsection \<open>The nodes below the top are checked\<close>

lemma array_items_checked:
  "deserialize_array_loop items = Inr xs \<Longrightarrow> item \<in> set items \<Longrightarrow> check_serialized item = Inr ()"
proof (induction items arbitrary: xs)
  case Nil
  then show ?case by simp
next
  case (Cons a items)
  then show ?case
    by (auto split: sum.splits simp del: deserialize_value.simps)
qed

lemma object_members_checked:
  "deserialize_object_loop ms = Inr xs \<Longrightarrow> (i, item) \<in> set ms \<Longrightarrow> check_serialized item = Inr ()"
proof (induction ms arbitrary: xs)
  case Nil
  then show ?case by simp
next
  case (Cons a ms)
  obtain k j where a: "a = (k, j)" by (cases a)
  from Cons a show ?case
    by (auto split: sum.splits simp del: deserialize_value.simps)
qed

subsection \<open>\<open>clear\<close> removes the keys under the prefix and no other\<close>

definition short_key :: "string \<Rightarrow> string \<Rightarrow> string list" where
  "short_key pfx key =
     (case indexOf key pfx of None \<Rightarrow> [] | Some idx \<Rightarrow> [drop (idx + length pfx) key])"

lemma indexOf_at_start: "take (length pfx) key = pfx \<Longrightarrow> indexOf key pfx = Some 0"
  by (cases key) auto

lemma get_keys_loop_web:
  "\<forall>i \<in> set is. i < length w \<Longrightarrow>
   get_keys_loop (Web w) pfx is = Inr (concat (map (\<lambda>i. short_key pfx (fst (w ! i))) is))"
  by (induction "is") (auto simp: web_key_def short_key_def split: option.splits)

lemma keys_web:
  assumes "storage c = Web w"
  shows "keys c = Inr (concat (map (\<lambda>e. short_key (keyPrefix c) (fst e)) w))"
proof -
  have "map (\<lambda>i. short_key (keyPrefix c) (fst (w ! i))) [0 ..< length w]
        = map (\<lambda>e. short_key (keyPrefix c) (fst e)) w"
    by (rule nth_equalityI) simp_all
  then show ?thesis
    using assms get_keys_loop_web [of "[0 ..< length w]" w "keyPrefix c"]
    by (simp add: keys_def get_keys_def web_length_def)
qed

lemma fold_remove_web:
  "storage c = Web w \<Longrightarrow>
   fold (\<lambda>k c'. remove c' k) ks c
     = c\<lparr>storage := Web (filter (\<lambda>e. fst e \<notin> (\<lambda>s. keyPrefix c @ s) ` set ks) w)\<rparr>"
proof (induction ks arbitrary: c w)
  case Nil
  then show ?case by simp
next
  case (Cons k ks)
  let ?w1 = "web_removeItem w (keyPrefix c @ k)"
  have r: "remove c k = c\<lparr>storage := Web ?w1\<rparr>"
    using Cons.prems by (simp add: remove_def)
  have "filter (\<lambda>e. fst e \<notin> (\<lambda>s. keyPrefix c @ s) ` set ks) ?w1
        = filter (\<lambda>e. fst e \<notin> (\<lambda>s. keyPrefix c @ s) ` set (k # ks)) w"
    unfolding web_removeItem_def filter_filter by (rule filter_cong) auto
  then show ?case
    using Cons.IH [of "remove c k" ?w1] r by simp
qed

text \<open>
  With a web storage \<open>clear\<close> does not fail, and what it leaves is the storage without
  the entries whose keys start with the prefix: every other entry stays, in its place.
\<close>

lemma short_key_listed:
  "e \<in> set w \<Longrightarrow> short_key pfx (fst e) = [s] \<Longrightarrow>
   s \<in> set (concat (map (\<lambda>e. short_key pfx (fst e)) w))"
  by (induction w) auto

lemma clear_removes_own_keys_only:
  assumes "storage c = Web w"
  shows "clear c = Inr (c\<lparr>storage := Web (filter (\<lambda>e. take (length (keyPrefix c)) (fst e) \<noteq> keyPrefix c) w)\<rparr>)"
proof -
  define pfx where "pfx = keyPrefix c"
  define ks where "ks = concat (map (\<lambda>e. short_key pfx (fst e)) w)"
  have own: "fst e \<in> (\<lambda>s. pfx @ s) ` set ks \<longleftrightarrow> take (length pfx) (fst e) = pfx"
    if e: "e \<in> set w" for e
  proof
    assume "fst e \<in> (\<lambda>s. pfx @ s) ` set ks"
    then obtain s where "fst e = pfx @ s" by blast
    then show "take (length pfx) (fst e) = pfx" by simp
  next
    assume s: "take (length pfx) (fst e) = pfx"
    then have "short_key pfx (fst e) = [drop (length pfx) (fst e)]"
      by (simp add: short_key_def indexOf_at_start)
    from short_key_listed [OF e this] have d: "drop (length pfx) (fst e) \<in> set ks"
      by (simp add: ks_def)
    have "fst e = pfx @ drop (length pfx) (fst e)"
      using s by (metis append_take_drop_id)
    with d show "fst e \<in> (\<lambda>s. pfx @ s) ` set ks" by (rule image_eqI [rotated])
  qed
  have f: "filter (\<lambda>e. fst e \<notin> (\<lambda>s. pfx @ s) ` set ks) w
        = filter (\<lambda>e. take (length pfx) (fst e) \<noteq> pfx) w"
    by (rule filter_cong) (simp_all add: own)
  have k: "keys c = Inr ks"
    using keys_web [OF assms] by (simp add: ks_def pfx_def)
  have "fold (\<lambda>k c'. remove c' k) ks c = c\<lparr>storage := Web (filter (\<lambda>e. fst e \<notin> (\<lambda>s. pfx @ s) ` set ks) w)\<rparr>"
    using fold_remove_web [OF assms, of ks] by (simp add: pfx_def)
  with f have "fold (\<lambda>k c'. remove c' k) ks c
      = c\<lparr>storage := Web (filter (\<lambda>e. take (length pfx) (fst e) \<noteq> pfx) w)\<rparr>"
    by simp
  moreover have "webStorage c" using assms by (simp add: webStorage_def)
  ultimately show ?thesis
    using k unfolding clear_def pfx_def by simp
qed

text \<open>Every key of the cache is listed by \<open>keys\<close>, without the prefix.\<close>

lemma keys_lists_own_keys:
  assumes "storage c = Web w" "(keyPrefix c @ k, t) \<in> set w"
  shows "\<exists>ks. keys c = Inr ks \<and> k \<in> set ks"
proof -
  have "short_key (keyPrefix c) (fst (keyPrefix c @ k, t)) = [k]"
    by (simp add: short_key_def indexOf_at_start)
  from short_key_listed [OF assms(2) this] keys_web [OF assms(1)] show ?thesis by simp
qed

section \<open>Where the code departs from its specification\<close>

text \<open>
  C2. \<open>set\<close> checks the key, the value, the type of the value and the expiration
  before it touches the storage (\<open>set_item_checks_first\<close>), but the type of a nested
  element is looked at only when the entry is serialized, after the old entry has been
  removed. With a web storage that holds an entry under the key, \<open>set\<close> of an array
  that holds a function raises the error of \<open>_serialize_value\<close> and leaves the storage
  without the old entry.
\<close>

theorem set_nested_function_removes_old_entry:
  "set_item \<lparr>keyPrefix = ''p.'', storage = Web [(''p.k'',
        Encoded (node ''object'' (JObj [(''value'', node ''string'' (JStr ''old'')),
                                         (''expires'', JObj [(''type'', JStr ''undefined'')])])))]\<rparr>
     0 (VString ''k'') (VArray [VFunction]) VUndefined
   = (Inl (InvalidValueType ''function''), \<lparr>keyPrefix = ''p.'', storage = Web []\<rparr>)"
  by (simp add: set_item_def unsupported_types_def remove_def web_removeItem_def freeze_def
      webStorage_def entry_def expiration_def)

text \<open>
  C3. \<open>clear\<close> does remove the entries under the prefix and no other
  (\<open>clear_removes_own_keys_only\<close>), and \<open>keys\<close> lists every key of the cache
  (\<open>keys_lists_own_keys\<close>). But \<open>_get_keys\<close> looks for the prefix anywhere in a key
  of the storage (\<open>idx != -1\<close>), not at its start: a foreign key that contains the
  prefix further in is listed, cut after the prefix, although the storage holds no key
  of this cache.
\<close>

theorem keys_lists_foreign_key:
  "keys \<lparr>keyPrefix = ''Ext.ux.Cache.'',
         storage = Web [(''my.Ext.ux.Cache.foo'', Plain ''bar'')]\<rparr> = Inr [''foo''] \<and>
   storage_getItem (Web [(''my.Ext.ux.Cache.foo'', Plain ''bar'')]) ''Ext.ux.Cache.foo'' = Missing"
  by (simp add: keys_def get_keys_def web_length_def web_key_def web_getItem_def)

text \<open>
  C7. The loops over the elements of an array and the members of an object check
  each node before they deserialize it (\<open>array_items_checked\<close>,
  \<open>object_members_checked\<close>).
  \<open>_thaw\<close> hands the type and the payload of the document it decoded to
  \<open>_deserialize_value\<close> without that check. A stored document with the tag \<open>string\<close>
  and no payload is read as the string \<open>undefined\<close>, and \<open>has\<close> answers true for its
  key; the same node as an element of an array is refused.
\<close>

theorem thaw_skips_check_of_top_node:
  "thaw \<lparr>keyPrefix = ''p.'', storage = Web [(''p.k'', Encoded (JObj [(''type'', JStr ''string'')]))]\<rparr>
     (Text (Encoded (JObj [(''type'', JStr ''string'')]))) = Inr (VString ''undefined'') \<and>
   has \<lparr>keyPrefix = ''p.'', storage = Web [(''p.k'', Encoded (JObj [(''type'', JStr ''string'')]))]\<rparr>
     ''k'' = Inr True \<and>
   check_serialized (JObj [(''type'', JStr ''string'')]) = Inl InvalidSerialized \<and>
   deserialize_array (Some (JArr [JObj [(''type'', JStr ''string'')]])) = Inl InvalidSerialized"
  by (simp add: thaw_def has_def fetch_value_def webStorage_def web_getItem_def
      inherited_members_def object_members_def functionTable_def deserialize_string_def)

end
